theory Spec2Isabelle
  imports Main "HOL-Library.Word" "HOL-Library.Multiset"
begin

section \<open>Go values, panics and outcomes\<close>

text \<open>
  The values that travel through \<^verbatim>\<open>interface{}\<close> in this repository: strings, the
  \<^verbatim>\<open>int64\<close> readings of \<^verbatim>\<open>time.Now().UnixMilli()\<close>, booleans, and the
  run-time errors the Go runtime itself panics with. The nil interface is \<open>None\<close>.
  A \<^verbatim>\<open>map[string]interface{}\<close> is a partial function, and the nil map (which can be
  read but not written) is \<open>None\<close>.
\<close>

datatype val = Str string | I64 "64 word" | BoolV bool | RuntimeError string

type_synonym any = "val option"

type_synonym gomap = "(string \<rightharpoonup> any) option"

text \<open>
  A Go function that runs on a state \<open>'s\<close> either returns a value or panics with a
  non-nil value; both leave a state behind. (Since Go 1.21 \<^verbatim>\<open>recover()\<close> never yields
  nil for a panic in flight, so the payload of \<open>Panics\<close> is a \<open>val\<close>.)
\<close>

datatype ('a, 's) outcome = Returns 'a 's | Panics val 's

fun state_of :: "('a, 's) outcome \<Rightarrow> 's" where
  "state_of (Returns x s) = s"
| "state_of (Panics r s) = s"

section \<open>pool/pool.go\<close>

text \<open>\<^verbatim>\<open>type Job func()\<close>: a closure acting on the state \<open>'p\<close> of the process.\<close>

type_synonym 'p Job = "'p \<Rightarrow> (unit, 'p) outcome"

text \<open>
  Where a worker goroutine stands in \<^verbatim>\<open>worker\<close>: about to evaluate the
  \<^verbatim>\<open>select\<close>, blocked in it with no case ready, holding a job it has received,
  returned (its deferred \<^verbatim>\<open>wg.Done()\<close> has run), or killed by a panic that nothing
  recovered.
\<close>

datatype 'p goroutine = Selecting | Parked | Running "'p Job" | Exited | Died val

record 'p Pool =
  workers :: int
  ctx_done :: bool
  jobs :: "'p Job list"
  jobs_cap :: nat
  wg :: nat
  goroutines :: "'p goroutine list"

text \<open>\<^verbatim>\<open>make(chan Job, n)\<close> panics for a negative \<open>n\<close>. (It also does for an \<open>n\<close>
  beyond what the platform can allocate; that bound is not part of the code, and the
  pools below include those of any capacity.)\<close>

definition NewPool :: "int \<Rightarrow> int \<Rightarrow> val + 'p Pool" where
  "NewPool n workerChannelBuff =
     (if workerChannelBuff < 0 then Inl (RuntimeError ''makechan: size out of range'')
      else Inr \<lparr>workers = n, ctx_done = False, jobs = [],
                jobs_cap = nat workerChannelBuff, wg = 0, goroutines = []\<rparr>)"

text \<open>
  \<^verbatim>\<open>startWorkers\<close>: the loop \<^verbatim>\<open>for i := 0; i < workers; i++\<close> adds one to the wait
  group and spawns one goroutine per round (none for \<open>workers \<le> 0\<close>).
\<close>

definition StartWorkers :: "'p Pool \<Rightarrow> 'p Pool" where
  "StartWorkers p =
     p\<lparr>wg := wg p + nat (workers p),
       goroutines := goroutines p @ replicate (nat (workers p)) Selecting\<rparr>"

text \<open>
  The non-blocking send \<^verbatim>\<open>case p.jobs <- job\<close>. As in the Go runtime, a receiver
  blocked on the channel gets the value directly (the only way a send succeeds on a
  channel of capacity 0); otherwise the value goes to the buffer if there is room;
  otherwise the send is not ready. A worker blocked in its \<^verbatim>\<open>select\<close> is receiving
  until \<^verbatim>\<open>cancel\<close> wakes it. Among several blocked workers the one of lowest index
  is taken; workers being interchangeable, nothing below depends on which.
\<close>

fun first_parked :: "'p goroutine list \<Rightarrow> nat option" where
  "first_parked [] = None"
| "first_parked (g # gs) =
     (case g of Parked \<Rightarrow> Some 0 | _ \<Rightarrow> map_option Suc (first_parked gs))"

definition chansend :: "'p Pool \<Rightarrow> 'p Job \<Rightarrow> 'p Pool option" where
  "chansend p job =
     (case (if ctx_done p then None else first_parked (goroutines p)) of
        Some i \<Rightarrow> Some (p\<lparr>goroutines := (goroutines p)[i := Running job]\<rparr>)
      | None \<Rightarrow>
          if length (jobs p) < jobs_cap p then Some (p\<lparr>jobs := jobs p @ [job]\<rparr>)
          else None)"

text \<open>
  The second \<^verbatim>\<open>select\<close> of \<^verbatim>\<open>Submit\<close>: the send, or \<^verbatim>\<open>case <-p.ctx.Done()\<close>,
  or \<^verbatim>\<open>default\<close>. When the send is ready and the context cancelled, Go picks one of
  the two at random (\<open>pick\<close> says whether it is the send).
\<close>

definition select_send :: "bool \<Rightarrow> 'p Pool \<Rightarrow> 'p Job \<Rightarrow> bool \<times> 'p Pool" where
  "select_send pick p job =
     (case chansend p job of
        Some p' \<Rightarrow> if ctx_done p \<and> \<not> pick then (False, p) else (True, p')
      | None \<Rightarrow> (False, p))"

text \<open>
  \<^verbatim>\<open>Submit\<close>, run without a \<^verbatim>\<open>cancel\<close> in between its two selects: the first
  select returns false on a cancelled context; in the second the context is then still
  live, so the choice does not arise.
\<close>

definition Submit :: "'p Pool \<Rightarrow> 'p Job \<Rightarrow> bool \<times> 'p Pool" where
  "Submit p job =
     (if ctx_done p then (False, p)
      else select_send True p job)"

text \<open>The two statements of \<^verbatim>\<open>Stop\<close>: \<^verbatim>\<open>p.cancel()\<close>, and \<^verbatim>\<open>p.wg.Wait()\<close>, which
  returns once the counter is 0 and blocks (\<open>None\<close>) until then.\<close>

definition cancel :: "'p Pool \<Rightarrow> 'p Pool" where
  "cancel p = p\<lparr>ctx_done := True\<rparr>"

definition wg_Wait :: "'p Pool \<Rightarrow> 'p Pool option" where
  "wg_Wait p = (if wg p = 0 then Some p else None)"

text \<open>
  The body of the anonymous function in \<^verbatim>\<open>worker\<close>: \<^verbatim>\<open>job()\<close> under a deferred
  \<^verbatim>\<open>recover()\<close> whose \<^verbatim>\<open>if r != nil\<close> branch is empty. Whatever the job did to the
  state before it panicked stays done.
\<close>

definition run_job :: "'p Job \<Rightarrow> 'p \<Rightarrow> (unit, 'p) outcome" where
  "run_job job w =
     (case job w of
        Returns u w' \<Rightarrow> Returns () w'
      | Panics r w' \<Rightarrow> Returns () w')"

text \<open>
  The return of \<^verbatim>\<open>worker\<close> runs its deferred \<^verbatim>\<open>p.wg.Done()\<close>, which panics on a
  counter that is already 0.
\<close>

definition worker_exit :: "nat \<Rightarrow> 'p Pool \<Rightarrow> 'p Pool" where
  "worker_exit i p =
     (if wg p = 0
      then p\<lparr>goroutines := (goroutines p)[i := Died (RuntimeError ''sync: negative WaitGroup counter'')]\<rparr>
      else p\<lparr>wg := wg p - 1, goroutines := (goroutines p)[i := Exited]\<rparr>)"

text \<open>
  One scheduling step of worker \<open>i\<close>. At the \<^verbatim>\<open>select\<close>: with the context cancelled
  and a job buffered both cases are ready and Go picks one at random (\<open>pick\<close> says
  whether it is the receive); with only one ready that one runs; with none the worker
  blocks. A blocked worker is woken by \<^verbatim>\<open>cancel\<close> and returns. A worker holding a job
  runs it and then leaves if \<^verbatim>\<open>ctx.Err() != nil\<close>. The channel is never closed, so the
  \<^verbatim>\<open>!ok\<close> return is dead. \<open>None\<close>: the worker cannot move.
\<close>

fun worker_step :: "nat \<Rightarrow> bool \<Rightarrow> 'p Pool \<times> 'p \<Rightarrow> ('p Pool \<times> 'p) option" where
  "worker_step i pick (p, w) =
     (if length (goroutines p) \<le> i then None
      else case goroutines p ! i of
        Selecting \<Rightarrow>
          (if ctx_done p \<and> (jobs p = [] \<or> \<not> pick) then Some (worker_exit i p, w)
           else (case jobs p of
                   [] \<Rightarrow> Some (p\<lparr>goroutines := (goroutines p)[i := Parked]\<rparr>, w)
                 | job # rest \<Rightarrow>
                     Some (p\<lparr>jobs := rest,
                             goroutines := (goroutines p)[i := Running job]\<rparr>, w)))
      | Parked \<Rightarrow> (if ctx_done p then Some (worker_exit i p, w) else None)
      | Running job \<Rightarrow>
          (case run_job job w of
             Returns u w' \<Rightarrow>
               Some (if ctx_done p then worker_exit i p
                     else p\<lparr>goroutines := (goroutines p)[i := Selecting]\<rparr>, w')
           | Panics r w' \<Rightarrow>
               Some (p\<lparr>goroutines := (goroutines p)[i := Died r]\<rparr>, w'))
      | Exited \<Rightarrow> None
      | Died r \<Rightarrow> None)"

text \<open>
  What can happen to a pool, one step at a time: the calls of its owner (with the
  answer \<^verbatim>\<open>Submit\<close> gave), and the steps of its workers, in the order the scheduler
  chose.
\<close>

datatype 'p event =
    CallStartWorkers
  | CallSubmit "'p Job" bool
  | CallCancel
  | WaitReturns
  | Worker nat bool

fun pool_step :: "'p event \<Rightarrow> 'p Pool \<times> 'p \<Rightarrow> ('p Pool \<times> 'p) option" where
  "pool_step CallStartWorkers (p, w) = Some (StartWorkers p, w)"
| "pool_step (CallSubmit job accepted) (p, w) =
     (case Submit p job of (b, p') \<Rightarrow> if b = accepted then Some (p', w) else None)"
| "pool_step CallCancel (p, w) = Some (cancel p, w)"
| "pool_step WaitReturns (p, w) = map_option (\<lambda>p'. (p', w)) (wg_Wait p)"
| "pool_step (Worker i pick) (p, w) = worker_step i pick (p, w)"

fun pool_run :: "'p event list \<Rightarrow> 'p Pool \<times> 'p \<Rightarrow> ('p Pool \<times> 'p) option" where
  "pool_run [] s = Some s"
| "pool_run (e # es) s = (case pool_step e s of None \<Rightarrow> None | Some s' \<Rightarrow> pool_run es s')"

text \<open>
  A call of \<^verbatim>\<open>Stop\<close> that returns: \<^verbatim>\<open>p.cancel()\<close>, then whatever the other
  goroutines do while the caller is blocked in \<^verbatim>\<open>p.wg.Wait()\<close>, then the return of
  \<^verbatim>\<open>Wait\<close>. \<open>None\<close>: with these steps of the others \<^verbatim>\<open>Wait\<close> is still blocked.
\<close>

definition Stop :: "'p event list \<Rightarrow> 'p Pool \<times> 'p \<Rightarrow> ('p Pool \<times> 'p) option" where
  "Stop meanwhile s = pool_run (CallCancel # meanwhile @ [WaitReturns]) s"

section \<open>telemetry_handler.go, telemetry_config.go\<close>

text \<open>
  A callback is a closure over the world \<open>'w\<close> outside the dispatcher. Callbacks and
  span bodies that call back into the dispatcher itself are outside this model, and
  so are callbacks that write into the maps or the config they are handed: these are
  passed as values.
\<close>

type_synonym 'w HandleEventFunc =
  "string \<Rightarrow> gomap \<Rightarrow> gomap \<Rightarrow> any \<Rightarrow> 'w \<Rightarrow> (unit, 'w) outcome"

record 'w EventRegistrar =
  Event :: string
  Handler :: "'w HandleEventFunc"

text \<open>A value of \<^verbatim>\<open>TelemetryHandlerInterface\<close>: what its three methods return.\<close>

record 'w TelemetryHandler =
  ID :: string
  AttachedHandlers :: "'w EventRegistrar list"
  Config :: any

record TelemetryConfig =
  AllowConcurrentExecution :: bool
  ConcurrentPoolSize :: int
  ConcurrentBufferSize :: int

type_synonym TelemetryConfigUpdateFunc = "TelemetryConfig \<Rightarrow> TelemetryConfig"

definition NewTelemetryConfig :: "TelemetryConfigUpdateFunc list \<Rightarrow> TelemetryConfig" where
  "NewTelemetryConfig configs =
     fold (\<lambda>c telemetryConfig. c telemetryConfig) configs
       \<lparr>AllowConcurrentExecution = False, ConcurrentPoolSize = 0, ConcurrentBufferSize = 0\<rparr>"

definition WithAllowConcurrentExecution :: "bool \<Rightarrow> TelemetryConfigUpdateFunc" where
  "WithAllowConcurrentExecution b c = c\<lparr>AllowConcurrentExecution := b\<rparr>"

definition WithConcurrentPoolSize :: "int \<Rightarrow> TelemetryConfigUpdateFunc" where
  "WithConcurrentPoolSize n c = c\<lparr>ConcurrentPoolSize := n\<rparr>"

definition WithConcurrentBufferSize :: "int \<Rightarrow> TelemetryConfigUpdateFunc" where
  "WithConcurrentBufferSize n c = c\<lparr>ConcurrentBufferSize := n\<rparr>"

section \<open>The provider (TelemetryProvider)\<close>

text \<open>
  The state of the process outside the dispatcher: the world the callbacks act on, and
  what \<^verbatim>\<open>log.Printf\<close> has written (handler id, event and panic value of each
  recovered handler panic; the stack text is left out).
\<close>

record 'w proc =
  world :: 'w
  logged :: "(string \<times> string \<times> val) list"

type_synonym error = "string option"

record 'w executableEvent =
  handler :: "'w HandleEventFunc"
  config_e :: any
  id_e :: string

record 'w TelemetryProvider =
  handlers :: "string \<rightharpoonup> 'w TelemetryHandler"
  config :: TelemetryConfig
  pool :: "'w proc Pool option"

definition NewTelemetry :: "TelemetryConfig \<Rightarrow> val + 'w TelemetryProvider" where
  "NewTelemetry c =
     (if AllowConcurrentExecution c then
        (case NewPool (ConcurrentPoolSize c) (ConcurrentBufferSize c) of
           Inl r \<Rightarrow> Inl r
         | Inr p \<Rightarrow> Inr \<lparr>handlers = Map.empty, config = c, pool = Some (StartWorkers p)\<rparr>)
      else Inr \<lparr>handlers = Map.empty, config = c, pool = None\<rparr>)"

definition AddHandlers ::
  "'w TelemetryProvider \<Rightarrow> 'w TelemetryHandler list \<Rightarrow> error \<times> 'w TelemetryProvider" where
  "AddHandlers t hs = (None, t\<lparr>handlers := fold (\<lambda>h m. m(ID h \<mapsto> h)) hs (handlers t)\<rparr>)"

definition RemoveHandlers ::
  "'w TelemetryProvider \<Rightarrow> 'w TelemetryHandler list \<Rightarrow> error \<times> 'w TelemetryProvider" where
  "RemoveHandlers t hs = (None, t\<lparr>handlers := fold (\<lambda>h m. m(ID h := None)) hs (handlers t)\<rparr>)"

text \<open>
  \<^verbatim>\<open>getEventFunc\<close>. Go visits the keys of a map in an order of its own choosing,
  new at every \<^verbatim>\<open>range\<close>: \<open>ks\<close> is the order of this visit, an enumeration of the
  keys of \<open>handlers t\<close> (see \<open>range_order\<close>).
\<close>

definition range_order :: "('k \<rightharpoonup> 'v) \<Rightarrow> 'k list \<Rightarrow> bool" where
  "range_order m ks \<longleftrightarrow> distinct ks \<and> set ks = dom m"

definition matching :: "'w TelemetryHandler \<Rightarrow> string \<Rightarrow> 'w executableEvent list" where
  "matching h event =
     map (\<lambda>eventRegistrar. \<lparr>handler = Handler eventRegistrar, config_e = Config h, id_e = ID h\<rparr>)
       (filter (\<lambda>eventRegistrar. Event eventRegistrar = event) (AttachedHandlers h))"

definition getEventFunc ::
  "string list \<Rightarrow> 'w TelemetryProvider \<Rightarrow> string \<Rightarrow> 'w executableEvent list" where
  "getEventFunc ks t event =
     concat (map (\<lambda>k. case handlers t k of None \<Rightarrow> [] | Some h \<Rightarrow> matching h event) ks)"

text \<open>\<^verbatim>\<open>executeHandlerSafely\<close>: the callback under a deferred \<^verbatim>\<open>recover()\<close> that logs.\<close>

definition executeHandlerSafely ::
  "'w executableEvent \<Rightarrow> string \<Rightarrow> gomap \<Rightarrow> gomap \<Rightarrow> 'w proc \<Rightarrow> (unit, 'w proc) outcome" where
  "executeHandlerSafely eventFunc event measurement metadata s =
     (case handler eventFunc event measurement metadata (config_e eventFunc) (world s) of
        Returns u w' \<Rightarrow> Returns () (s\<lparr>world := w'\<rparr>)
      | Panics r w' \<Rightarrow>
          Returns () (s\<lparr>world := w', logged := logged s @ [(id_e eventFunc, event, r)]\<rparr>))"

text \<open>
  \<^verbatim>\<open>executeEventFuncs\<close>. In concurrent mode each invocation is offered to the pool
  as a closure over its own \<^verbatim>\<open>eventFunc\<close> (the loop variable is per iteration, as
  since Go 1.22) and the answer of \<^verbatim>\<open>Submit\<close> is dropped; calling \<^verbatim>\<open>Submit\<close>
  on a nil pool is a nil dereference. This is the thread of the caller alone: what
  the workers of the pool do meanwhile is a matter of \<open>pool_run\<close> on the pool.
\<close>

fun executeEventFuncs ::
  "'w executableEvent list \<Rightarrow> string \<Rightarrow> gomap \<Rightarrow> gomap \<Rightarrow>
   'w TelemetryProvider \<times> 'w proc \<Rightarrow> (error, 'w TelemetryProvider \<times> 'w proc) outcome" where
  "executeEventFuncs [] event measurement metadata (t, s) = Returns None (t, s)"
| "executeEventFuncs (eventFunc # rest) event measurement metadata (t, s) =
     (if AllowConcurrentExecution (config t) then
        (case pool t of
           None \<Rightarrow>
             Panics (RuntimeError ''runtime error: invalid memory address or nil pointer dereference'')
               (t, s)
         | Some p \<Rightarrow>
             executeEventFuncs rest event measurement metadata
               (t\<lparr>pool := Some (snd (Submit p (executeHandlerSafely eventFunc event measurement metadata)))\<rparr>, s))
      else (case executeHandlerSafely eventFunc event measurement metadata s of
              Returns u s' \<Rightarrow> executeEventFuncs rest event measurement metadata (t, s')
            | Panics r s' \<Rightarrow> Panics r (t, s')))"

definition TriggerEvent ::
  "string list \<Rightarrow> string \<Rightarrow> gomap \<Rightarrow> gomap \<Rightarrow>
   'w TelemetryProvider \<times> 'w proc \<Rightarrow> (error, 'w TelemetryProvider \<times> 'w proc) outcome" where
  "TriggerEvent ks event measurement metadata ts =
     (let eventFuncs = getEventFunc ks (fst ts) event in
      if length eventFuncs = 0 then Returns None ts
      else (case executeEventFuncs eventFuncs event measurement metadata ts of
              Returns e ts' \<Rightarrow> Returns None ts'
            | Panics r ts' \<Rightarrow> Panics r ts'))"

text \<open>
  What a call of \<^verbatim>\<open>TriggerSpan\<close> takes from its environment: the readings of
  \<^verbatim>\<open>time.Now().UnixMilli()\<close> (an \<^verbatim>\<open>int64\<close>) before the body, after it and in the
  recovery, the text of \<^verbatim>\<open>debug.Stack()\<close>, and the order in which each of its
  \<^verbatim>\<open>TriggerEvent\<close> calls visits the handler map.
\<close>

record env =
  startTime :: "64 word"
  endTime :: "64 word"
  errorTime :: "64 word"
  stackTrace :: string
  rangeStart :: "string list"
  rangeEnd :: "string list"
  rangePanic :: "string list"

type_synonym 'w SpanFunc = "'w \<Rightarrow> (any \<times> error \<times> gomap \<times> gomap, 'w) outcome"

text \<open>
  The statements of \<^verbatim>\<open>TriggerSpan\<close> below its \<^verbatim>\<open>defer\<close>. Writing
  \<^verbatim>\<open>spanMeasurement["duration"]\<close> panics when the body returned a nil map; the
  subtraction is that of \<^verbatim>\<open>int64\<close>.
\<close>

definition span_start_measurement :: "env \<Rightarrow> gomap" where
  "span_start_measurement e = Some [''start_time'' \<mapsto> Some (I64 (startTime e))]"

definition span_end_measurement :: "env \<Rightarrow> (string \<rightharpoonup> any) \<Rightarrow> gomap" where
  "span_end_measurement e spanMeasurement =
     Some (spanMeasurement(''duration'' \<mapsto> Some (I64 (endTime e - startTime e)),
                           ''end_time'' \<mapsto> Some (I64 (endTime e))))"

definition TriggerSpan_body ::
  "env \<Rightarrow> string \<Rightarrow> gomap \<Rightarrow> 'w SpanFunc \<Rightarrow> 'w TelemetryProvider \<times> 'w proc \<Rightarrow>
   (any \<times> error, 'w TelemetryProvider \<times> 'w proc) outcome" where
  "TriggerSpan_body e event metadata spanFunc ts =
     (case TriggerEvent (rangeStart e) (event @ ''.start'') (span_start_measurement e) metadata ts of
        Panics r ts1 \<Rightarrow> Panics r ts1
      | Returns er (t1, s1) \<Rightarrow>
          (case spanFunc (world s1) of
             Panics r w2 \<Rightarrow> Panics r (t1, s1\<lparr>world := w2\<rparr>)
           | Returns (result, err, spanMeasurement, spanMetadata) w2 \<Rightarrow>
               (case spanMeasurement of
                  None \<Rightarrow>
                    Panics (RuntimeError ''assignment to entry in nil map'') (t1, s1\<lparr>world := w2\<rparr>)
                | Some sm \<Rightarrow>
                    (case TriggerEvent (rangeEnd e) (event @ ''.end'') (span_end_measurement e sm)
                            spanMetadata (t1, s1\<lparr>world := w2\<rparr>) of
                       Panics r ts3 \<Rightarrow> Panics r ts3
                     | Returns er' ts3 \<Rightarrow> Returns (result, err) ts3))))"

text \<open>
  \<^verbatim>\<open>TriggerSpan\<close>: the deferred function sees the panic of the body, if any, fires
  the \<^verbatim>\<open>.panic\<close> event and panics again with the same value (a panic of that
  \<^verbatim>\<open>TriggerEvent\<close> call itself would replace it).
\<close>

definition span_panic_metadata :: "env \<Rightarrow> val \<Rightarrow> gomap" where
  "span_panic_metadata e r =
     Some [''error'' \<mapsto> Some r, ''errorTime'' \<mapsto> Some (I64 (errorTime e)),
           ''stackTrace'' \<mapsto> Some (Str (stackTrace e))]"

definition TriggerSpan ::
  "env \<Rightarrow> string \<Rightarrow> gomap \<Rightarrow> 'w SpanFunc \<Rightarrow> 'w TelemetryProvider \<times> 'w proc \<Rightarrow>
   (any \<times> error, 'w TelemetryProvider \<times> 'w proc) outcome" where
  "TriggerSpan e event metadata spanFunc ts =
     (case TriggerSpan_body e event metadata spanFunc ts of
        Returns x ts' \<Rightarrow> Returns x ts'
      | Panics r ts' \<Rightarrow>
          (case TriggerEvent (rangePanic e) (event @ ''.panic'') (Some Map.empty)
                  (span_panic_metadata e r) ts' of
             Returns er ts'' \<Rightarrow> Panics r ts''
           | Panics r' ts'' \<Rightarrow> Panics r' ts''))"

section \<open>The mailbox (Mailer)\<close>

record MailData =
  Measurement :: gomap
  Metadata :: gomap

type_synonym MailboxFunc = "string \<Rightarrow> MailData list \<Rightarrow> bool"

text \<open>
  The callbacks of a \<^verbatim>\<open>Mailer\<close> close over it and write its \<^verbatim>\<open>mailbox\<close> map:
  that map is the world they act on.
\<close>

record Mailer =
  mailbox :: "string \<rightharpoonup> MailData list"
  handlers_m :: "(string \<rightharpoonup> MailData list) EventRegistrar list"
  id_m :: string

definition NewMailer :: "string \<Rightarrow> Mailer" where
  "NewMailer i = \<lparr>mailbox = Map.empty, handlers_m = [], id_m = i\<rparr>"

definition buildHandler :: "(string \<rightharpoonup> MailData list) HandleEventFunc" where
  "buildHandler event measurement metadata cfg mb =
     Returns ()
       (mb(event \<mapsto> (case mb event of None \<Rightarrow> [] | Some l \<Rightarrow> l)
                        @ [\<lparr>Measurement = measurement, Metadata = metadata\<rparr>]))"

definition registerHandler :: "string \<Rightarrow> (string \<rightharpoonup> MailData list) EventRegistrar" where
  "registerHandler event = \<lparr>Event = event, Handler = buildHandler\<rparr>"

definition BuildHandlers :: "Mailer \<Rightarrow> string list \<Rightarrow> Mailer" where
  "BuildHandlers m events = m\<lparr>handlers_m := handlers_m m @ map registerHandler events\<rparr>"

text \<open>The \<^verbatim>\<open>Mailer\<close> as a \<^verbatim>\<open>TelemetryHandlerInterface\<close>: its \<^verbatim>\<open>ID\<close>,
  \<^verbatim>\<open>AttachedHandlers\<close> and \<^verbatim>\<open>Config\<close> methods.\<close>

definition Mailer_handler :: "Mailer \<Rightarrow> (string \<rightharpoonup> MailData list) TelemetryHandler" where
  "Mailer_handler m = \<lparr>ID = id_m m, AttachedHandlers = handlers_m m, Config = None\<rparr>"

text \<open>
  \<^verbatim>\<open>AssertReceive\<close> spins: each round either finds the timer fired and returns
  false, or reads the mailbox under the lock and tests it. Other goroutines write the
  mailbox meanwhile, so the rounds before the timer fires see a list of snapshots of
  it, \<open>polls\<close>; how many there are is up to the clock and the scheduler, whatever the
  \<open>timeout\<close>. The predicate is taken to be a pure function.
\<close>

fun AssertReceive ::
  "(string \<rightharpoonup> MailData list) list \<Rightarrow> string \<Rightarrow> int \<Rightarrow> MailboxFunc \<Rightarrow> bool" where
  "AssertReceive [] event timeout mailboxFunc = False"
| "AssertReceive (mb # polls) event timeout mailboxFunc =
     (case mb event of
        None \<Rightarrow> AssertReceive polls event timeout mailboxFunc
      | Some l \<Rightarrow>
          if mailboxFunc event l then True
          else AssertReceive polls event timeout mailboxFunc)"

definition AssertReceived :: "Mailer \<Rightarrow> string \<Rightarrow> MailboxFunc \<Rightarrow> bool" where
  "AssertReceived m event mailboxFunc =
     (case mailbox m event of
        None \<Rightarrow> False
      | Some l \<Rightarrow> if mailboxFunc event l then True else False)"

definition RefuteReceive ::
  "(string \<rightharpoonup> MailData list) list \<Rightarrow> string \<Rightarrow> int \<Rightarrow> MailboxFunc \<Rightarrow> bool" where
  "RefuteReceive polls event timeout mailboxFunc =
     (\<not> AssertReceive polls event timeout mailboxFunc)"

definition RefuteReceived :: "Mailer \<Rightarrow> string \<Rightarrow> MailboxFunc \<Rightarrow> bool" where
  "RefuteReceived m event mailboxFunc = (\<not> AssertReceived m event mailboxFunc)"


section \<open>Notions used in the statements\<close>

subsection \<open>Runs of a pool\<close>

text \<open>
  Properties of a pool that every run keeps: a worker is blocked in its
  \<^verbatim>\<open>select\<close> only while the buffer is empty; no worker was killed by a panic, and
  the wait group counts the workers that have not returned.
\<close>

definition pool_inv :: "'p Pool \<Rightarrow> bool" where
  "pool_inv p \<longleftrightarrow> Parked \<notin> set (goroutines p) \<or> jobs p = []"

fun live :: "'p goroutine \<Rightarrow> bool" where
  "live Selecting = True"
| "live Parked = True"
| "live (Running job) = True"
| "live Exited = False"
| "live (Died r) = False"

definition no_died :: "'p Pool \<Rightarrow> bool" where
  "no_died p \<longleftrightarrow> (\<forall>g \<in> set (goroutines p). case g of Died r \<Rightarrow> False | _ \<Rightarrow> True)"

definition pool_ok :: "'p Pool \<Rightarrow> bool" where
  "pool_ok p \<longleftrightarrow> no_died p \<and> wg p = length (filter live (goroutines p))"

subsection \<open>What one dispatch does\<close>

text \<open>
  Running the resolved callbacks one after the other, each under
  \<^verbatim>\<open>executeHandlerSafely\<close>; offering them to the pool one after the other; and the
  condition \<^verbatim>\<open>NewTelemetry\<close> establishes and every call keeps: a provider in
  concurrent mode has a pool.
\<close>

definition run_sync ::
  "'w executableEvent list \<Rightarrow> string \<Rightarrow> gomap \<Rightarrow> gomap \<Rightarrow> 'w proc \<Rightarrow> 'w proc" where
  "run_sync efs event measurement metadata s =
     fold (\<lambda>ef s. state_of (executeHandlerSafely ef event measurement metadata s)) efs s"

definition submit_all ::
  "'w executableEvent list \<Rightarrow> string \<Rightarrow> gomap \<Rightarrow> gomap \<Rightarrow> 'w proc Pool \<Rightarrow> 'w proc Pool" where
  "submit_all efs event measurement metadata p =
     fold (\<lambda>ef p. snd (Submit p (executeHandlerSafely ef event measurement metadata))) efs p"

definition pool_present :: "'w TelemetryProvider \<Rightarrow> bool" where
  "pool_present t \<longleftrightarrow> (AllowConcurrentExecution (config t) \<longrightarrow> pool t \<noteq> None)"

subsection \<open>Deliveries to a mailbox\<close>

text \<open>
  The log of a name (the empty sequence for a name never delivered), a run of
  deliveries to the callback of a \<^verbatim>\<open>Mailer\<close>, and what a run delivered under a name.
\<close>

definition log_of :: "(string \<rightharpoonup> MailData list) \<Rightarrow> string \<Rightarrow> MailData list" where
  "log_of mb name = (case mb name of None \<Rightarrow> [] | Some l \<Rightarrow> l)"

fun deliver :: "(string \<times> gomap \<times> gomap) list \<Rightarrow> (string \<rightharpoonup> MailData list) \<Rightarrow> (string \<rightharpoonup> MailData list)" where
  "deliver [] mb = mb"
| "deliver ((event, measurement, metadata) # ds) mb =
     deliver ds (state_of (buildHandler event measurement metadata None mb))"

definition delivered :: "(string \<times> gomap \<times> gomap) list \<Rightarrow> string \<Rightarrow> MailData list" where
  "delivered ds name =
     map (\<lambda>(event, measurement, metadata). \<lparr>Measurement = measurement, Metadata = metadata\<rparr>)
       (filter (\<lambda>(event, measurement, metadata). event = name) ds)"

subsection \<open>Calls on the registry\<close>

text \<open>
  A sequence of \<^verbatim>\<open>AddHandlers\<close> and \<^verbatim>\<open>RemoveHandlers\<close> calls, and, in the words of
  the specification, what the last call to mention an identity did to it: \<open>Some h\<close>
  for a handler added, \<open>None\<close> for a removal.
\<close>

datatype 'w registry_call = Add "'w TelemetryHandler list" | Remove "'w TelemetryHandler list"

fun apply_call :: "'w registry_call \<Rightarrow> 'w TelemetryProvider \<Rightarrow> 'w TelemetryProvider" where
  "apply_call (Add hs) t = snd (AddHandlers t hs)"
| "apply_call (Remove hs) t = snd (RemoveHandlers t hs)"

fun writes :: "'w registry_call \<Rightarrow> (string \<times> 'w TelemetryHandler option) list" where
  "writes (Add hs) = map (\<lambda>h. (ID h, Some h)) hs"
| "writes (Remove hs) = map (\<lambda>h. (ID h, None)) hs"

fun last_write :: "(string \<times> 'v) list \<Rightarrow> string \<Rightarrow> 'v option" where
  "last_write [] k = None"
| "last_write ((k', v) # ws) k =
     (case last_write ws k of Some v' \<Rightarrow> Some v' | None \<Rightarrow> if k' = k then Some v else None)"

definition most_recent :: "'w registry_call list \<Rightarrow> string \<Rightarrow> 'w TelemetryHandler option option" where
  "most_recent cs k = last_write (concat (map writes cs)) k"

subsection \<open>Examples\<close>

text \<open>
  Jobs and callbacks on a world that lists who ran: they record a number, or panic.
  \<open>job_boom\<close> panics after it has written.
\<close>

definition job_mark :: "nat \<Rightarrow> nat list Job" where
  "job_mark n w = Returns () (w @ [n])"

definition job_boom :: "nat list Job" where
  "job_boom w = Panics (Str ''boom'') (w @ [0])"

definition mark :: "nat \<Rightarrow> nat list HandleEventFunc" where
  "mark n event measurement metadata cfg w = Returns () (w @ [n])"

definition boom :: "nat list HandleEventFunc" where
  "boom event measurement metadata cfg w = Panics (Str ''boom'') w"

text \<open>
  Pools: as \<^verbatim>\<open>NewPool(1, 0)\<close> and \<^verbatim>\<open>NewPool(2, 10)\<close> make them; one whose only
  worker holds \<open>job_boom\<close> with a job waiting; one whose buffer is full.
\<close>

definition pool_1_0 :: "nat list Pool" where
  "pool_1_0 = \<lparr>workers = 1, ctx_done = False, jobs = [], jobs_cap = 0, wg = 0, goroutines = []\<rparr>"

definition pool_2_10 :: "nat list Pool" where
  "pool_2_10 = \<lparr>workers = 2, ctx_done = False, jobs = [], jobs_cap = 10, wg = 0, goroutines = []\<rparr>"

definition pool_busy :: "nat list Pool" where
  "pool_busy = \<lparr>workers = 1, ctx_done = False, jobs = [job_mark 1], jobs_cap = 10, wg = 1,
                 goroutines = [Running job_boom]\<rparr>"

definition pool_full :: "nat list Pool" where
  "pool_full = \<lparr>workers = 1, ctx_done = False, jobs = [job_mark 2], jobs_cap = 1, wg = 1,
                 goroutines = [Running (job_mark 1)]\<rparr>"

text \<open>
  Handlers and providers: synchronous ones, and a concurrent one with one worker (not
  yet scheduled) and room for one job, as \<^verbatim>\<open>NewTelemetry\<close> and \<^verbatim>\<open>AddHandlers\<close>
  make it.
\<close>

definition example_handler :: "nat list TelemetryHandler" where
  "example_handler =
     \<lparr>ID = ''h'',
      AttachedHandlers = [\<lparr>Event = ''a'', Handler = boom\<rparr>, \<lparr>Event = ''a'', Handler = mark 2\<rparr>],
      Config = Some (Str ''cfg'')\<rparr>"

definition two_marks :: "nat list TelemetryHandler" where
  "two_marks =
     \<lparr>ID = ''h'',
      AttachedHandlers = [\<lparr>Event = ''a'', Handler = mark 1\<rparr>, \<lparr>Event = ''a.b'', Handler = mark 3\<rparr>,
                          \<lparr>Event = ''a'', Handler = mark 2\<rparr>],
      Config = Some (Str ''cfg'')\<rparr>"

definition other_handler :: "nat list TelemetryHandler" where
  "other_handler = \<lparr>ID = ''g'', AttachedHandlers = [\<lparr>Event = ''a'', Handler = mark 4\<rparr>], Config = None\<rparr>"

definition sync_provider :: "nat list TelemetryProvider" where
  "sync_provider =
     \<lparr>handlers = [''h'' \<mapsto> example_handler],
      config = \<lparr>AllowConcurrentExecution = False, ConcurrentPoolSize = 0, ConcurrentBufferSize = 0\<rparr>,
      pool = None\<rparr>"

definition two_provider :: "nat list TelemetryProvider" where
  "two_provider =
     \<lparr>handlers = [''h'' \<mapsto> two_marks, ''g'' \<mapsto> other_handler],
      config = \<lparr>AllowConcurrentExecution = False, ConcurrentPoolSize = 0, ConcurrentBufferSize = 0\<rparr>,
      pool = None\<rparr>"

definition concurrent_config :: TelemetryConfig where
  "concurrent_config =
     NewTelemetryConfig [WithAllowConcurrentExecution True, WithConcurrentPoolSize 1, WithConcurrentBufferSize 1]"

definition concurrent_provider :: "nat list TelemetryProvider" where
  "concurrent_provider =
     \<lparr>handlers = [''h'' \<mapsto> two_marks],
      config = \<lparr>AllowConcurrentExecution = True, ConcurrentPoolSize = 1, ConcurrentBufferSize = 1\<rparr>,
      pool = Some \<lparr>workers = 1, ctx_done = False, jobs = [], jobs_cap = 1, wg = 1, goroutines = [Selecting]\<rparr>\<rparr>"

definition queued_pool :: "nat list proc Pool" where
  "queued_pool =
     \<lparr>workers = 1, ctx_done = False,
      jobs = [executeHandlerSafely \<lparr>handler = mark 1, config_e = Some (Str ''cfg''), id_e = ''h''\<rparr>
                ''a'' None None],
      jobs_cap = 1, wg = 1, goroutines = [Selecting]\<rparr>"

definition proc0 :: "nat list proc" where
  "proc0 = \<lparr>world = [], logged = []\<rparr>"

text \<open>
  A synchronous provider whose only handler is a \<^verbatim>\<open>Mailer\<close> bound to the three
  events of the span \<open>x\<close>; clocks that run forwards and backwards; span bodies that
  return, return a nil measurement map, and panic.
\<close>

definition mail_provider :: "(string \<rightharpoonup> MailData list) TelemetryProvider" where
  "mail_provider =
     \<lparr>handlers = [''m'' \<mapsto> Mailer_handler (BuildHandlers (NewMailer ''m'') [''x.start'', ''x.end'', ''x.panic''])],
      config = \<lparr>AllowConcurrentExecution = False, ConcurrentPoolSize = 0, ConcurrentBufferSize = 0\<rparr>,
      pool = None\<rparr>"

definition mail_proc0 :: "(string \<rightharpoonup> MailData list) proc" where
  "mail_proc0 = \<lparr>world = Map.empty, logged = []\<rparr>"

definition env_up :: env where
  "env_up = \<lparr>startTime = 5, endTime = 8, errorTime = 9, stackTrace = ''goroutine 1 [running]'',
              rangeStart = [''m''], rangeEnd = [''m''], rangePanic = [''m'']\<rparr>"

definition env_back :: env where
  "env_back = \<lparr>startTime = 5, endTime = 3, errorTime = 9, stackTrace = ''goroutine 1 [running]'',
                rangeStart = [''m''], rangeEnd = [''m''], rangePanic = [''m'']\<rparr>"

definition body_ok :: "(string \<rightharpoonup> MailData list) SpanFunc" where
  "body_ok w = Returns (Some (Str ''done''), None, Some [''rows'' \<mapsto> Some (I64 7)],
                        Some [''result'' \<mapsto> Some (Str ''ok'')]) w"

definition body_nil :: "(string \<rightharpoonup> MailData list) SpanFunc" where
  "body_nil w = Returns (Some (Str ''done''), None, None, None) w"

definition body_panic :: "(string \<rightharpoonup> MailData list) SpanFunc" where
  "body_panic w = Panics (Str ''test panic'') w"

section \<open>The pool\<close>

lemmas pool_defs = StartWorkers_def Submit_def select_send_def chansend_def cancel_def wg_Wait_def
      run_job_def worker_exit_def

lemma first_parked_None: "first_parked gs = None \<longleftrightarrow> Parked \<notin> set gs"
  by (induction gs) (auto split: goroutine.splits)

lemma Submit_done: "ctx_done p \<Longrightarrow> Submit p job = (False, p)"
  by (simp add: Submit_def)

lemma Submit_full:
  "jobs_cap p \<le> length (jobs p) \<Longrightarrow> Parked \<notin> set (goroutines p) \<Longrightarrow> Submit p job = (False, p)"
  by (simp add: Submit_def select_send_def chansend_def first_parked_None [THEN iffD2])

lemma select_send_full:
  "jobs_cap p \<le> length (jobs p) \<Longrightarrow> Parked \<notin> set (goroutines p) \<Longrightarrow>
   select_send pick p job = (False, p)"
  by (simp add: select_send_def chansend_def first_parked_None [THEN iffD2])

lemma Submit_ctx_done: "ctx_done (snd (Submit p job)) = ctx_done p"
  by (auto simp: Submit_def select_send_def chansend_def split: option.splits)

lemma worker_step_ctx_done: "worker_step i pick (p, w) = Some (p', w') \<Longrightarrow> ctx_done p' = ctx_done p"
  by (auto simp: worker_exit_def split: if_splits goroutine.splits list.splits outcome.splits)

lemma pool_step_ctx_done: "pool_step e (p, w) = Some (p', w') \<Longrightarrow> ctx_done p \<Longrightarrow> ctx_done p'"
proof (cases e)
  case (CallSubmit job b)
  assume "pool_step e (p, w) = Some (p', w')" "ctx_done p"
  with CallSubmit show ?thesis
    using Submit_ctx_done [of p job] by (auto split: prod.splits if_splits)
next
  case (Worker i pick)
  assume "pool_step e (p, w) = Some (p', w')" "ctx_done p"
  with Worker show ?thesis using worker_step_ctx_done [of i pick p w p' w'] by simp
qed (auto simp: StartWorkers_def cancel_def wg_Wait_def split: if_splits)

lemma pool_run_ctx_done: "pool_run es (p, w) = Some (p', w') \<Longrightarrow> ctx_done p \<Longrightarrow> ctx_done p'"
proof (induction es arbitrary: p w)
  case Nil
  then show ?case by simp
next
  case (Cons e es)
  then obtain p1 w1 where st: "pool_step e (p, w) = Some (p1, w1)" and run: "pool_run es (p1, w1) = Some (p', w')"
    by (auto split: option.splits)
  from pool_step_ctx_done [OF st Cons.prems(2)] Cons.IH [OF run] show ?case by simp
qed

lemma pool_run_after_cancel: "pool_run es (cancel p, w) = Some (p', w') \<Longrightarrow> ctx_done p'"
  using pool_run_ctx_done [of es "cancel p" w p' w'] by (simp add: cancel_def)

lemma no_Parked_update: "Parked \<notin> set gs \<Longrightarrow> g \<noteq> Parked \<Longrightarrow> Parked \<notin> set (gs[i := g])"
  using set_update_subset_insert [of gs i g] by auto

lemma Submit_inv: "pool_inv p \<Longrightarrow> pool_inv (snd (Submit p job))"
  by (auto simp: pool_inv_def Submit_def select_send_def chansend_def first_parked_None no_Parked_update split: option.splits)

lemma worker_step_inv:
  assumes "worker_step i pick (p, w) = Some (p', w')" "pool_inv p"
  shows "pool_inv p'"
proof (cases "Parked \<in> set (goroutines p)")
  case True
  with assms(2) have "jobs p = []" by (simp add: pool_inv_def)
  with assms(1) have "jobs p' = []"
    by (auto simp: worker_exit_def split: if_splits goroutine.splits outcome.splits)
  then show ?thesis by (simp add: pool_inv_def)
next
  case False
  with assms(1) have "jobs p' = [] \<or> Parked \<notin> set (goroutines p')"
    by (auto simp: worker_exit_def no_Parked_update split: if_splits goroutine.splits outcome.splits list.splits)
  then show ?thesis by (auto simp: pool_inv_def)
qed

lemma pool_step_inv: "pool_step e (p, w) = Some (p', w') \<Longrightarrow> pool_inv p \<Longrightarrow> pool_inv p'"
proof (cases e)
  case (CallSubmit job b)
  assume "pool_step e (p, w) = Some (p', w')" "pool_inv p"
  with CallSubmit show ?thesis
    using Submit_inv [of p job] by (auto split: prod.splits if_splits)
next
  case (Worker i pick)
  assume "pool_step e (p, w) = Some (p', w')" "pool_inv p"
  with Worker show ?thesis using worker_step_inv [of i pick p w p' w'] by simp
qed (auto simp: StartWorkers_def cancel_def wg_Wait_def pool_inv_def split: if_splits)

lemma pool_run_inv: "pool_run es (p, w) = Some (p', w') \<Longrightarrow> pool_inv p \<Longrightarrow> pool_inv p'"
proof (induction es arbitrary: p w)
  case Nil
  then show ?case by simp
next
  case (Cons e es)
  then obtain p1 w1 where st: "pool_step e (p, w) = Some (p1, w1)" and run: "pool_run es (p1, w1) = Some (p', w')"
    by (auto split: option.splits)
  from pool_step_inv [OF st Cons.prems(2)] Cons.IH [OF run] show ?case by simp
qed

lemma NewPool_inv: "NewPool n b = Inr p \<Longrightarrow> pool_inv p"
  by (auto simp: NewPool_def pool_inv_def split: if_splits)

lemma Submit_full_reachable:
  assumes "NewPool n b = Inr p0" "pool_run es (p0, w) = Some (p, w')"
    and "0 < jobs_cap p" "jobs_cap p \<le> length (jobs p)"
  shows "Submit p job = (False, p)"
proof -
  have "pool_inv p" using pool_run_inv [OF assms(2) NewPool_inv [OF assms(1)]] .
  with assms(3,4) have "Parked \<notin> set (goroutines p)" by (auto simp: pool_inv_def)
  with assms(4) show ?thesis by (rule Submit_full)
qed

text \<open>
  C5, as the code has it. \<^verbatim>\<open>Submit\<close> is a total function (it never blocks). It
  returns false and leaves the pool as it was whenever the context is cancelled, and
  whenever the buffer holds as many jobs as its capacity and no worker is blocked
  waiting for one (its second \<^verbatim>\<open>select\<close> alone does then); in every state a pool can reach from \<^verbatim>\<open>NewPool\<close>, a full buffer
  of positive capacity is enough, since then no worker is blocked. From
  \<^verbatim>\<open>cancel\<close> on, the first statement of \<^verbatim>\<open>Stop\<close>, and so after \<^verbatim>\<open>Stop\<close> has
  returned, whatever happens next, \<^verbatim>\<open>Submit\<close> returns false.
\<close>

theorem Submit_rejects:
  "(ctx_done p \<longrightarrow> Submit p job = (False, p))
   \<and> (jobs_cap p \<le> length (jobs p) \<and> Parked \<notin> set (goroutines p) \<longrightarrow>
        Submit p job = (False, p) \<and> select_send pick p job = (False, p))
   \<and> (NewPool n b = Inr p0 \<and> pool_run es (p0, w0) = Some (p, w) \<and> 0 < jobs_cap p \<and> jobs_cap p \<le> length (jobs p)
        \<longrightarrow> Submit p job = (False, p))
   \<and> (pool_run es' (cancel p1, w1) = Some (p2, w2) \<longrightarrow> Submit p2 job = (False, p2))
   \<and> (Stop meanwhile (p3, w3) = Some (p4, w4) \<and> pool_run es'' (p4, w4) = Some (p5, w5)
        \<longrightarrow> Submit p5 job = (False, p5))"
proof -
  have "ctx_done p5" if "Stop meanwhile (p3, w3) = Some (p4, w4)" "pool_run es'' (p4, w4) = Some (p5, w5)"
  proof -
    from that(1) have "pool_run (meanwhile @ [WaitReturns]) (cancel p3, w3) = Some (p4, w4)"
      by (simp add: Stop_def)
    then have "ctx_done p4" by (rule pool_run_after_cancel)
    with that(2) show ?thesis by (rule pool_run_ctx_done)
  qed
  then show ?thesis
    using Submit_done [of p job] Submit_done [of p2 job] Submit_done [of p5 job] Submit_full [of p job]
      select_send_full [of p pick job]
      Submit_full_reachable [of n b p0 es w0 p w job] pool_run_after_cancel [of es' p1 w1 p2 w2] by blast
qed

theorem Submit_rejects_witness:
  "Submit pool_full (job_mark 3) = (False, pool_full)
   \<and> Submit (pool_2_10\<lparr>ctx_done := True, wg := 0, goroutines := [Exited, Exited]\<rparr>) (job_mark 3) =
       (False, pool_2_10\<lparr>ctx_done := True, wg := 0, goroutines := [Exited, Exited]\<rparr>)"
proof -
  note general = Submit_rejects [where job = "job_mark 3"]
  have full: "Submit pool_full (job_mark 3) = (False, pool_full)"
    by (rule general [where p = pool_full, THEN conjunct2, THEN conjunct1, rule_format, THEN conjunct1])
       (simp add: pool_full_def)
  have "Stop [Worker 0 True, Worker 1 True] (StartWorkers pool_2_10, []) =
          Some (pool_2_10\<lparr>ctx_done := True, wg := 0, goroutines := [Exited, Exited]\<rparr>, [])
        \<and> pool_run [] (pool_2_10\<lparr>ctx_done := True, wg := 0, goroutines := [Exited, Exited]\<rparr>, []) =
          Some (pool_2_10\<lparr>ctx_done := True, wg := 0, goroutines := [Exited, Exited]\<rparr>, [])"
    by (simp add: pool_defs Stop_def pool_2_10_def numeral_2_eq_2)
  then have "Submit (pool_2_10\<lparr>ctx_done := True, wg := 0, goroutines := [Exited, Exited]\<rparr>) (job_mark 3) =
       (False, pool_2_10\<lparr>ctx_done := True, wg := 0, goroutines := [Exited, Exited]\<rparr>)"
    by (rule general [THEN conjunct2, THEN conjunct2, THEN conjunct2, THEN conjunct2, rule_format])
  with full show ?thesis by simp
qed

text \<open>
  C5, as the specification states it, fails on a pool of capacity 0: once the worker
  of \<^verbatim>\<open>NewPool(1, 0)\<close> is blocked in its \<^verbatim>\<open>select\<close>, the queue holds as many jobs
  as its capacity (none), the pool is not stopping, and \<^verbatim>\<open>Submit\<close> returns true:
  the job goes to the worker directly, which then runs it.
\<close>

theorem Submit_unbuffered_handoff:
  "NewPool 1 0 = Inr pool_1_0
   \<and> pool_run [CallStartWorkers, Worker 0 True] (pool_1_0, []) =
       Some (pool_1_0\<lparr>wg := 1, goroutines := [Parked]\<rparr>, [])
   \<and> length (jobs (pool_1_0\<lparr>wg := 1, goroutines := [Parked]\<rparr>)) = jobs_cap (pool_1_0\<lparr>wg := 1, goroutines := [Parked]\<rparr>)
   \<and> Submit (pool_1_0\<lparr>wg := 1, goroutines := [Parked]\<rparr>) (job_mark 1) =
       (True, pool_1_0\<lparr>wg := 1, goroutines := [Running (job_mark 1)]\<rparr>)
   \<and> pool_run [Worker 0 True] (pool_1_0\<lparr>wg := 1, goroutines := [Running (job_mark 1)]\<rparr>, []) =
       Some (pool_1_0\<lparr>wg := 1, goroutines := [Selecting]\<rparr>, [1])"
  by (simp add: pool_defs pool_1_0_def job_mark_def NewPool_def)

text \<open>
  C1 at the scenario of \<^verbatim>\<open>TestPoolShutdownWaitsForJobs\<close>, two workers and three
  jobs, under another schedule. All three \<^verbatim>\<open>Submit\<close> calls return true (the run
  would be \<open>None\<close> otherwise) and each worker takes a job. Then \<^verbatim>\<open>Stop\<close> is called
  while both are running: it cancels the context; each worker finishes its job, sees
  \<^verbatim>\<open>ctx.Err() != nil\<close> and returns; \<^verbatim>\<open>wg.Wait()\<close> returns, and with it
  \<^verbatim>\<open>Stop\<close>. The third job, accepted, is still in the queue and has not run: the
  world records jobs 1 and 2 only.
\<close>

theorem Stop_leaves_accepted_job:
  "NewPool 2 10 = Inr pool_2_10
   \<and> pool_run [CallStartWorkers,
                 CallSubmit (job_mark 1) True, CallSubmit (job_mark 2) True, CallSubmit (job_mark 3) True,
                 Worker 0 True, Worker 1 True]
        (pool_2_10, []) =
       Some (pool_2_10\<lparr>jobs := [job_mark 3], wg := 2,
                         goroutines := [Running (job_mark 1), Running (job_mark 2)]\<rparr>, [])
   \<and> Stop [Worker 0 True, Worker 1 True]
        (pool_2_10\<lparr>jobs := [job_mark 3], wg := 2,
                    goroutines := [Running (job_mark 1), Running (job_mark 2)]\<rparr>, []) =
       Some (pool_2_10\<lparr>ctx_done := True, jobs := [job_mark 3], goroutines := [Exited, Exited]\<rparr>, [1, 2])"
  by (simp add: pool_defs Stop_def pool_2_10_def job_mark_def NewPool_def numeral_2_eq_2)

lemma run_job_returns: "run_job job w = Returns () (state_of (job w))"
  by (simp add: run_job_def split: outcome.splits)

lemma worker_step_Running:
  assumes "i < length (goroutines p)" "goroutines p ! i = Running job"
  shows "worker_step i pick (p, w) =
           Some (if ctx_done p then worker_exit i p
                 else p\<lparr>goroutines := (goroutines p)[i := Selecting]\<rparr>, state_of (job w))"
  using assms by (simp add: run_job_returns)

lemma worker_runs_next:
  assumes "i < length (goroutines p)" "goroutines p ! i = Running job"
    and "\<not> ctx_done p" "jobs p = next_job # rest"
  shows "pool_run [Worker i pick, Worker i pick', Worker i pick''] (p, w) =
           Some (p\<lparr>jobs := rest, goroutines := (goroutines p)[i := Selecting]\<rparr>,
                 state_of (next_job (state_of (job w))))"
  using assms by (simp add: run_job_returns)

lemma first_parked_Some: "first_parked gs = Some i \<Longrightarrow> i < length gs \<and> gs ! i = Parked"
  by (induction gs arbitrary: i) (auto split: goroutine.splits)

lemma filter_update_length:
  "i < length xs \<Longrightarrow>
   length (filter P (xs[i := y])) + (if P (xs ! i) then 1 else 0) =
   length (filter P xs) + (if P y then 1 else 0)"
proof (induction xs arbitrary: i)
  case Nil
  then show ?case by simp
next
  case (Cons x xs)
  show ?case
  proof (cases i)
    case 0
    then show ?thesis by simp
  next
    case (Suc j)
    with Cons.prems have "j < length xs" by simp
    from Cons.IH [OF this] Suc show ?thesis by simp
  qed
qed

lemma pool_ok_update:
  assumes "pool_ok p" "i < length (goroutines p)" "live (goroutines p ! i)" "live g"
  shows "pool_ok (p\<lparr>goroutines := (goroutines p)[i := g]\<rparr>)"
proof -
  have "case g of Died r \<Rightarrow> False | _ \<Rightarrow> True" using assms(4) by (cases g) simp_all
  then have "no_died (p\<lparr>goroutines := (goroutines p)[i := g]\<rparr>)"
    using assms(1) set_update_subset_insert [of "goroutines p" i g]
    by (auto simp: pool_ok_def no_died_def)
  moreover have "length (filter live ((goroutines p)[i := g])) = length (filter live (goroutines p))"
    using filter_update_length [OF assms(2), of live g] assms(3,4) by simp
  ultimately show ?thesis using assms(1) by (simp add: pool_ok_def)
qed

lemma pool_ok_jobs: "pool_ok (p\<lparr>jobs := js\<rparr>) = pool_ok p"
  by (simp add: pool_ok_def no_died_def)

lemma pool_ok_exit:
  assumes "pool_ok p" "i < length (goroutines p)" "live (goroutines p ! i)"
  shows "pool_ok (worker_exit i p)"
proof -
  have count: "length (filter live ((goroutines p)[i := Exited])) + 1 = length (filter live (goroutines p))"
    using filter_update_length [OF assms(2), of live Exited] assms(3) by simp
  then have "length (filter live (goroutines p)) \<noteq> 0" by linarith
  with assms(1) have pos: "wg p \<noteq> 0" by (simp add: pool_ok_def)
  have "no_died (p\<lparr>wg := wg p - 1, goroutines := (goroutines p)[i := Exited]\<rparr>)"
    using assms(1) set_update_subset_insert [of "goroutines p" i Exited]
    by (auto simp: pool_ok_def no_died_def)
  with pos count assms(1) show ?thesis by (simp add: worker_exit_def pool_ok_def)
qed

lemma Submit_ok: "pool_ok p \<Longrightarrow> pool_ok (snd (Submit p job))"
proof (cases "first_parked (goroutines p)")
  case None
  assume "pool_ok p"
  with None show ?thesis
    by (simp add: Submit_def select_send_def chansend_def pool_ok_def no_died_def)
next
  case (Some i)
  assume ok: "pool_ok p"
  from first_parked_Some [OF Some] have "i < length (goroutines p)" "live (goroutines p ! i)" by simp_all
  from pool_ok_update [OF ok this, of "Running job"] Some ok show ?thesis
    by (simp add: Submit_def select_send_def chansend_def)
qed

lemma worker_step_ok:
  assumes "worker_step i pick (p, w) = Some (p', w')" "pool_ok p"
  shows "pool_ok p'"
proof -
  from assms(1) have i: "i < length (goroutines p)" by (simp split: if_splits)
  show ?thesis
  proof (cases "goroutines p ! i")
    case Selecting
    then have l: "live (goroutines p ! i)" by simp
    have take: "pool_ok (p\<lparr>jobs := rest, goroutines := (goroutines p)[i := Running job]\<rparr>)" for rest job
      using pool_ok_update [of "p\<lparr>jobs := rest\<rparr>" i "Running job"] assms(2) i l
      by (simp add: pool_ok_jobs)
    from assms(1) Selecting i show ?thesis
      using pool_ok_update [OF assms(2) i l, of Parked] pool_ok_exit [OF assms(2) i l] take
      by (auto split: if_splits list.splits)
  next
    case Parked
    then have l: "live (goroutines p ! i)" by simp
    from assms(1) Parked i show ?thesis
      using pool_ok_exit [OF assms(2) i l] by (auto split: if_splits)
  next
    case (Running job)
    then have l: "live (goroutines p ! i)" by simp
    from assms(1) Running i show ?thesis
      using pool_ok_update [OF assms(2) i l, of Selecting] pool_ok_exit [OF assms(2) i l]
      by (auto simp: run_job_returns split: if_splits)
  next
    case Exited
    with assms(1) i show ?thesis by simp
  next
    case (Died r)
    with assms(1) i show ?thesis by simp
  qed
qed

lemma pool_step_ok: "pool_step e (p, w) = Some (p', w') \<Longrightarrow> pool_ok p \<Longrightarrow> pool_ok p'"
proof (cases e)
  case (CallSubmit job b)
  assume "pool_step e (p, w) = Some (p', w')" "pool_ok p"
  with CallSubmit show ?thesis
    using Submit_ok [of p job] by (auto split: prod.splits if_splits)
next
  case (Worker i pick)
  assume "pool_step e (p, w) = Some (p', w')" "pool_ok p"
  with Worker show ?thesis using worker_step_ok [of i pick p w p' w'] by simp
qed (auto simp: StartWorkers_def cancel_def wg_Wait_def pool_ok_def no_died_def split: if_splits)

lemma pool_run_ok: "pool_run es (p, w) = Some (p', w') \<Longrightarrow> pool_ok p \<Longrightarrow> pool_ok p'"
proof (induction es arbitrary: p w)
  case Nil
  then show ?case by simp
next
  case (Cons e es)
  then obtain p1 w1 where st: "pool_step e (p, w) = Some (p1, w1)" and run: "pool_run es (p1, w1) = Some (p', w')"
    by (auto split: option.splits)
  from pool_step_ok [OF st Cons.prems(2)] Cons.IH [OF run] show ?case by simp
qed

lemma NewPool_ok: "NewPool n b = Inr p \<Longrightarrow> pool_ok p"
  by (auto simp: NewPool_def pool_ok_def no_died_def split: if_splits)

lemma pool_run_Wait_last: "pool_run (es @ [WaitReturns]) s = Some (p', w') \<Longrightarrow> wg p' = 0"
proof (induction es arbitrary: s)
  case Nil
  then show ?case by (cases s) (auto simp: wg_Wait_def split: if_splits)
next
  case (Cons e es)
  then show ?case by (auto split: option.splits)
qed

text \<open>
  What \<^verbatim>\<open>Stop\<close> does wait for: when it returns, in any run from \<^verbatim>\<open>NewPool\<close>, every
  worker has returned, so no job is left half run.
\<close>

lemma Stop_returns_all_exited:
  assumes "NewPool n b = Inr p0" "pool_run es (p0, w0) = Some (p, w)"
    and "Stop meanwhile (p, w) = Some (p', w')"
  shows "filter live (goroutines p') = []"
proof -
  have ok: "pool_ok p" using pool_run_ok [OF assms(2) NewPool_ok [OF assms(1)]] .
  from assms(3) have run: "pool_run ((CallCancel # meanwhile) @ [WaitReturns]) (p, w) = Some (p', w')"
    by (simp add: Stop_def)
  then have "wg p' = 0" by (rule pool_run_Wait_last)
  moreover from run ok have "pool_ok p'" by (rule pool_run_ok)
  ultimately show ?thesis by (simp add: pool_ok_def)
qed

section \<open>Dispatch\<close>

lemma executeHandlerSafely_returns:
  "executeHandlerSafely ef event m d s = Returns () (state_of (executeHandlerSafely ef event m d s))"
  by (simp add: executeHandlerSafely_def split: outcome.splits)

lemma executeHandlerSafely_world:
  "world (state_of (executeHandlerSafely ef event m d s)) =
     state_of (handler ef event m d (config_e ef) (world s))"
  by (simp add: executeHandlerSafely_def split: outcome.splits)

lemma executeEventFuncs_sync:
  "\<not> AllowConcurrentExecution (config t) \<Longrightarrow>
   executeEventFuncs efs event m d (t, s) = Returns None (t, run_sync efs event m d s)"
proof (induction efs arbitrary: s)
  case Nil
  then show ?case by (simp add: run_sync_def)
next
  case (Cons ef efs)
  obtain s' where "executeHandlerSafely ef event m d s = Returns () s'"
    using executeHandlerSafely_returns by blast
  with Cons show ?case by (simp add: run_sync_def)
qed

lemma executeEventFuncs_concurrent:
  "AllowConcurrentExecution (config t) \<Longrightarrow> pool t = Some p \<Longrightarrow>
   executeEventFuncs efs event m d (t, s) =
     Returns None (t\<lparr>pool := Some (submit_all efs event m d p)\<rparr>, s)"
proof (induction efs arbitrary: t p)
  case Nil
  then show ?case by (simp add: submit_all_def)
next
  case (Cons ef efs)
  let ?p' = "snd (Submit p (executeHandlerSafely ef event m d))"
  have "executeEventFuncs efs event m d (t\<lparr>pool := Some ?p'\<rparr>, s) =
          Returns None (t\<lparr>pool := Some ?p'\<rparr>\<lparr>pool := Some (submit_all efs event m d ?p')\<rparr>, s)"
    using Cons.prems by (intro Cons.IH) simp_all
  with Cons.prems show ?case by (simp add: submit_all_def)
qed

lemma TriggerEvent_sync:
  "\<not> AllowConcurrentExecution (config t) \<Longrightarrow>
   TriggerEvent ks event m d (t, s) =
     Returns None (t, run_sync (getEventFunc ks t event) event m d s)"
  by (cases "getEventFunc ks t event")
     (simp_all add: TriggerEvent_def executeEventFuncs_sync del: executeEventFuncs.simps, simp add: run_sync_def)

lemma TriggerEvent_concurrent:
  "AllowConcurrentExecution (config t) \<Longrightarrow> pool t = Some p \<Longrightarrow>
   TriggerEvent ks event m d (t, s) =
     Returns None (t\<lparr>pool := Some (submit_all (getEventFunc ks t event) event m d p)\<rparr>, s)"
  by (cases "getEventFunc ks t event")
     (simp_all add: TriggerEvent_def executeEventFuncs_concurrent del: executeEventFuncs.simps, simp add: submit_all_def)

lemma TriggerEvent_returns:
  assumes "pool_present t"
  shows "\<exists>t' s'. TriggerEvent ks event m d (t, s) = Returns None (t', s')
           \<and> config t' = config t \<and> handlers t' = handlers t \<and> pool_present t'"
proof (cases "AllowConcurrentExecution (config t)")
  case True
  with assms obtain p where "pool t = Some p" by (auto simp: pool_present_def)
  with True show ?thesis
    using TriggerEvent_concurrent [of t p ks event m d s] by (simp add: pool_present_def)
next
  case False
  then show ?thesis
    using TriggerEvent_sync [of t ks event m d s] assms by simp
qed

lemma TriggerEvent_Returns_state:
  "pool_present t \<Longrightarrow>
   TriggerEvent ks event m d (t, s) = Returns None (state_of (TriggerEvent ks event m d (t, s)))"
  using TriggerEvent_returns [of t ks event m d s] by auto

lemma NewTelemetry_pool_present: "NewTelemetry c = Inr t \<Longrightarrow> pool_present t"
  by (auto simp: NewTelemetry_def pool_present_def split: if_splits sum.splits)

lemma registry_pool_present:
  "pool_present (snd (AddHandlers t hs)) = pool_present t"
  "pool_present (snd (RemoveHandlers t hs)) = pool_present t"
  by (simp_all add: AddHandlers_def RemoveHandlers_def pool_present_def)

lemma case_Returns_state:
  "x = Returns a (state_of x) \<Longrightarrow>
   (case x of Returns er y \<Rightarrow> f y | Panics r y \<Rightarrow> g r y) = f (state_of x)"
  by (cases x) simp_all

lemma getEventFunc_none:
  assumes "\<forall>k h. handlers t k = Some h \<longrightarrow> (\<forall>r \<in> set (AttachedHandlers h). Event r \<noteq> event)"
  shows "getEventFunc ks t event = []"
  using assms by (auto simp: getEventFunc_def matching_def filter_empty_conv split: option.splits)

lemma mset_getEventFunc:
  assumes "range_order (handlers t) ks"
  shows "mset (getEventFunc ks t event) =
           (\<Sum>k \<in># mset_set (dom (handlers t)). mset (matching (the (handlers t k)) event))"
proof -
  let ?f = "\<lambda>k. case handlers t k of None \<Rightarrow> [] | Some h \<Rightarrow> matching h event"
  have ks: "mset ks = mset_set (dom (handlers t))"
    using assms mset_set_set [of ks] by (simp add: range_order_def)
  have "mset (getEventFunc ks t event) = (\<Sum>k \<in># mset ks. mset (?f k))"
    by (simp add: getEventFunc_def mset_concat sum_mset_sum_list [symmetric] comp_def)
  also have "\<dots> = (\<Sum>k \<in># mset ks. mset (matching (the (handlers t k)) event))"
  proof (rule arg_cong [where f = sum_mset], rule image_mset_cong)
    fix k assume "k \<in># mset ks"
    then have "k \<in> dom (handlers t)" using assms by (simp add: range_order_def)
    then show "mset (?f k) = mset (matching (the (handlers t k)) event)" by auto
  qed
  finally show ?thesis by (simp add: ks)
qed

text \<open>
  C4. A panic of a job or of a handler callback stops where it is run. In the pool:
  the recovering wrapper returns normally whatever the job does; the worker that ran
  the job goes back to its \<^verbatim>\<open>select\<close> (or returns, if the pool is stopping),
  exactly as after a job that returned; it then takes the next job of the queue and
  runs it; and in no run from \<^verbatim>\<open>NewPool\<close> is a worker ever killed by a panic, the
  wait group counting the workers that have not returned. In
  the dispatcher: \<^verbatim>\<open>executeHandlerSafely\<close> returns normally whatever the callback
  does, keeping what the callback did to the world; so \<^verbatim>\<open>TriggerEvent\<close> returns a
  nil error to its caller, in synchronous mode after having run every resolved
  callback in turn, those after a panicking one included, and in concurrent mode after
  having offered every one of them to the pool.
\<close>

theorem faults_contained:
  "run_job job w = Returns () (state_of (job w))
   \<and> (i < length (goroutines p) \<and> goroutines p ! i = Running job \<longrightarrow>
        worker_step i pick (p, w) =
          Some (if ctx_done p then worker_exit i p
                else p\<lparr>goroutines := (goroutines p)[i := Selecting]\<rparr>, state_of (job w)))
   \<and> (i < length (goroutines p) \<and> goroutines p ! i = Running job \<and> \<not> ctx_done p
        \<and> jobs p = next_job # rest \<longrightarrow>
        pool_run [Worker i pick, Worker i pick', Worker i pick''] (p, w) =
          Some (p\<lparr>jobs := rest, goroutines := (goroutines p)[i := Selecting]\<rparr>,
                state_of (next_job (state_of (job w)))))
   \<and> (NewPool n b = Inr p0 \<and> pool_run es (p0, w0) = Some (p1, w1) \<longrightarrow>
        no_died p1 \<and> wg p1 = length (filter live (goroutines p1)))
   \<and> executeHandlerSafely ef event m d s = Returns () (state_of (executeHandlerSafely ef event m d s))
   \<and> world (state_of (executeHandlerSafely ef event m d s)) =
         state_of (handler ef event m d (config_e ef) (world s))
   \<and> (\<not> AllowConcurrentExecution (config t) \<longrightarrow>
        TriggerEvent ks event m d (t, s) =
          Returns None (t, run_sync (getEventFunc ks t event) event m d s))
   \<and> (AllowConcurrentExecution (config t) \<and> pool t = Some p' \<longrightarrow>
        TriggerEvent ks event m d (t, s) =
          Returns None (t\<lparr>pool := Some (submit_all (getEventFunc ks t event) event m d p')\<rparr>, s))"
proof -
  have "no_died p1 \<and> wg p1 = length (filter live (goroutines p1))"
    if "NewPool n b = Inr p0" "pool_run es (p0, w0) = Some (p1, w1)"
    using pool_run_ok [OF that(2) NewPool_ok [OF that(1)]] by (simp add: pool_ok_def)
  then show ?thesis
    using run_job_returns [of job w] worker_step_Running [of i p job pick w]
      worker_runs_next [of i p job next_job rest pick pick' pick'' w]
      executeHandlerSafely_returns [of ef event m d s] executeHandlerSafely_world [of ef event m d s]
      TriggerEvent_sync [of t ks event m d s] TriggerEvent_concurrent [of t p' ks event m d s]
    by blast
qed

theorem faults_contained_witness:
  "pool_run [Worker 0 True, Worker 0 True, Worker 0 True] (pool_busy, []) =
     Some (pool_busy\<lparr>jobs := [], goroutines := [Selecting]\<rparr>, [0, 1])
   \<and> TriggerEvent [''h''] ''a'' None None (sync_provider, proc0) =
       Returns None (sync_provider, \<lparr>world = [2], logged = [(''h'', ''a'', Str ''boom'')]\<rparr>)"
proof -
  note general = faults_contained [where i = 0 and p = pool_busy and job = job_boom
      and next_job = "job_mark 1" and rest = "[]" and pick = True and pick' = True and pick'' = True
      and w = "[]" and t = sync_provider and ks = "[''h'']" and event = "''a''" and m = None
      and d = None and s = proc0]
  have run: "pool_run [Worker 0 True, Worker 0 True, Worker 0 True] (pool_busy, []) =
      Some (pool_busy\<lparr>jobs := [], goroutines := (goroutines pool_busy)[0 := Selecting]\<rparr>,
            state_of (job_mark 1 (state_of (job_boom []))))"
    by (rule general [THEN conjunct2, THEN conjunct2, THEN conjunct1, rule_format])
       (simp add: pool_busy_def)
  have trig: "TriggerEvent [''h''] ''a'' None None (sync_provider, proc0) =
      Returns None (sync_provider, run_sync (getEventFunc [''h''] sync_provider ''a'') ''a'' None None proc0)"
    by (rule general [THEN conjunct2, THEN conjunct2, THEN conjunct2, THEN conjunct2, THEN conjunct2,
          THEN conjunct2, THEN conjunct1, rule_format])
       (simp add: sync_provider_def)
  have efs: "getEventFunc [''h''] sync_provider ''a'' =
      [\<lparr>handler = boom, config_e = Some (Str ''cfg''), id_e = ''h''\<rparr>,
       \<lparr>handler = mark 2, config_e = Some (Str ''cfg''), id_e = ''h''\<rparr>]"
    by (simp add: getEventFunc_def matching_def sync_provider_def example_handler_def)
  have "run_sync (getEventFunc [''h''] sync_provider ''a'') ''a'' None None proc0 =
      \<lparr>world = [2], logged = [(''h'', ''a'', Str ''boom'')]\<rparr>"
    by (simp add: efs run_sync_def executeHandlerSafely_def boom_def mark_def proc0_def)
  moreover have "state_of (job_mark 1 (state_of (job_boom []))) = [0, 1]"
    by (simp add: job_boom_def job_mark_def)
  moreover have "(goroutines pool_busy)[0 := Selecting] = [Selecting]"
    by (simp add: pool_busy_def)
  ultimately show ?thesis using run trig by simp
qed

text \<open>
  C9. When no registered handler has a binding for the event name, \<^verbatim>\<open>TriggerEvent\<close>
  returns a nil error and leaves the provider (registry, configuration, pool) and the
  process (world and log) as they were: no callback runs and nothing is submitted.
\<close>

theorem TriggerEvent_no_binding:
  assumes "\<forall>k h. handlers t k = Some h \<longrightarrow> (\<forall>r \<in> set (AttachedHandlers h). Event r \<noteq> event)"
  shows "TriggerEvent ks event measurement metadata (t, s) = Returns None (t, s)"
  using getEventFunc_none [OF assms] by (simp add: TriggerEvent_def)

theorem TriggerEvent_no_binding_witness:
  "TriggerEvent [''h''] ''b'' None None (sync_provider, proc0) = Returns None (sync_provider, proc0)"
proof -
  have "\<forall>k h. handlers sync_provider k = Some h \<longrightarrow>
      (\<forall>r \<in> set (AttachedHandlers h). Event r \<noteq> ''b'')"
    by (simp add: sync_provider_def example_handler_def)
  then show ?thesis
    by (rule TriggerEvent_no_binding)
qed

text \<open>
  C7, as the code has it. Whatever order the \<^verbatim>\<open>range\<close> visits the registry in,
  \<^verbatim>\<open>TriggerEvent\<close> resolves exactly the bindings whose event string equals the name,
  each as often as it is bound, over all handlers, and each with the \<^verbatim>\<open>Config\<close> and
  \<^verbatim>\<open>ID\<close> of the handler that owns it. In synchronous mode it runs each resolved
  callback once, in the order resolved, on that name, measurement, metadata and
  config, and returns nil; in concurrent mode it offers each to the pool, in that
  order, keeps no answer, and returns nil.
\<close>

theorem TriggerEvent_resolves_matching:
  assumes "range_order (handlers t) ks"
  shows "mset (getEventFunc ks t event) =
           (\<Sum>k \<in># mset_set (dom (handlers t)). mset (matching (the (handlers t k)) event))
   \<and> matching h event =
         map (\<lambda>r. \<lparr>handler = Handler r, config_e = Config h, id_e = ID h\<rparr>)
           (filter (\<lambda>r. Event r = event) (AttachedHandlers h))
   \<and> (\<not> AllowConcurrentExecution (config t) \<longrightarrow>
        TriggerEvent ks event m d (t, s) =
          Returns None (t, run_sync (getEventFunc ks t event) event m d s))
   \<and> world (state_of (executeHandlerSafely ef event m d s)) =
         state_of (handler ef event m d (config_e ef) (world s))
   \<and> (AllowConcurrentExecution (config t) \<and> pool t = Some p \<longrightarrow>
        TriggerEvent ks event m d (t, s) =
          Returns None (t\<lparr>pool := Some (submit_all (getEventFunc ks t event) event m d p)\<rparr>, s))"
  using mset_getEventFunc [OF assms, of event] TriggerEvent_sync [of t ks event m d s]
    TriggerEvent_concurrent [of t p ks event m d s] executeHandlerSafely_world [of ef event m d s]
  by (simp add: matching_def)

theorem TriggerEvent_resolves_matching_witness:
  "TriggerEvent [''g'', ''h''] ''a'' None None (two_provider, proc0) =
     Returns None (two_provider, \<lparr>world = [4, 1, 2], logged = []\<rparr>)"
proof -
  have order: "range_order (handlers two_provider) [''g'', ''h'']"
    by (auto simp: range_order_def two_provider_def split: if_splits)
  have trig: "TriggerEvent [''g'', ''h''] ''a'' None None (two_provider, proc0) =
      Returns None (two_provider, run_sync (getEventFunc [''g'', ''h''] two_provider ''a'') ''a'' None None proc0)"
    by (rule TriggerEvent_resolves_matching [OF order, THEN conjunct2, THEN conjunct2, THEN conjunct1, rule_format])
       (simp add: two_provider_def)
  have "getEventFunc [''g'', ''h''] two_provider ''a'' =
      [\<lparr>handler = mark 4, config_e = None, id_e = ''g''\<rparr>,
       \<lparr>handler = mark 1, config_e = Some (Str ''cfg''), id_e = ''h''\<rparr>,
       \<lparr>handler = mark 2, config_e = Some (Str ''cfg''), id_e = ''h''\<rparr>]"
    by (simp add: getEventFunc_def matching_def two_provider_def two_marks_def other_handler_def)
  then have "run_sync (getEventFunc [''g'', ''h''] two_provider ''a'') ''a'' None None proc0 =
      \<lparr>world = [4, 1, 2], logged = []\<rparr>"
    by (simp add: run_sync_def executeHandlerSafely_def mark_def proc0_def)
  with trig show ?thesis by simp
qed

text \<open>
  C7, as the specification states it, fails in concurrent mode: the pool takes what
  it has room for. With one worker not yet at its \<^verbatim>\<open>select\<close> and a buffer of one,
  a handler with two bindings for \<open>a\<close> gets one invocation queued and the other
  rejected; nothing has run when \<^verbatim>\<open>TriggerEvent\<close> returns, and when the worker has
  drained the queue and blocks for more, only the first callback has run.
\<close>

theorem TriggerEvent_drops_rejected:
  "NewTelemetry concurrent_config = Inr (concurrent_provider\<lparr>handlers := Map.empty\<rparr>)
   \<and> snd (AddHandlers (concurrent_provider\<lparr>handlers := Map.empty\<rparr>) [two_marks]) = concurrent_provider
   \<and> getEventFunc [''h''] concurrent_provider ''a'' =
       [\<lparr>handler = mark 1, config_e = Some (Str ''cfg''), id_e = ''h''\<rparr>,
        \<lparr>handler = mark 2, config_e = Some (Str ''cfg''), id_e = ''h''\<rparr>]
   \<and> TriggerEvent [''h''] ''a'' None None (concurrent_provider, proc0) =
       Returns None (concurrent_provider\<lparr>pool := Some queued_pool\<rparr>, proc0)
   \<and> pool_run [Worker 0 True, Worker 0 True, Worker 0 True] (queued_pool, proc0) =
       Some (queued_pool\<lparr>jobs := [], goroutines := [Parked]\<rparr>, \<lparr>world = [1], logged = []\<rparr>)"
  by (simp add: concurrent_config_def NewTelemetryConfig_def WithAllowConcurrentExecution_def
      WithConcurrentPoolSize_def WithConcurrentBufferSize_def NewTelemetry_def NewPool_def pool_defs
      concurrent_provider_def queued_pool_def AddHandlers_def two_marks_def getEventFunc_def matching_def
      TriggerEvent_def executeHandlerSafely_def mark_def proc0_def)

section \<open>Spans\<close>

text \<open>
  The \<^verbatim>\<open>int64\<close> difference of two readings, the later not before the earlier: it is
  the true difference when that is below \<open>2 ^ 63\<close>, and wraps to a negative number
  otherwise.
\<close>

lemma sint_duration:
  fixes a b :: "64 word"
  assumes "sint b \<le> sint a" "sint a - sint b < 2 ^ 63"
  shows "sint (a - b) = sint a - sint b"
proof -
  from assms have "- (2 ^ 63) \<le> sint a - sint b" "sint a - sint b < 2 ^ 63" by simp_all
  then have "signed_take_bit 63 (sint a - sint b) = sint a - sint b"
    by (rule signed_take_bit_int_eq_self)
  then show ?thesis by (simp add: sint_word_ariths)
qed

lemma sint_duration_wraps:
  fixes a b :: "64 word"
  assumes "2 ^ 63 \<le> sint a - sint b"
  shows "sint (a - b) = sint a - sint b - 2 ^ 64"
proof -
  let ?d = "sint a - sint b"
  have "sint a < 2 ^ 63" "- (2 ^ 63) \<le> sint b" using sint_lt [of a] sint_ge [of b] by simp_all
  with assms have range: "0 \<le> ?d + 2 ^ 63 - 2 ^ 64" "?d + 2 ^ 63 - 2 ^ 64 < 2 ^ 64" by simp_all
  have "(?d + 2 ^ 63) mod 2 ^ 64 = (?d + 2 ^ 63 - 2 ^ 64) mod 2 ^ 64"
    by (simp only: minus_mod_self2)
  also have "\<dots> = ?d + 2 ^ 63 - 2 ^ 64"
    using range by (rule mod_pos_pos_trivial)
  finally have "take_bit 64 (?d + 2 ^ 63) = ?d + 2 ^ 63 - 2 ^ 64"
    by (simp add: take_bit_eq_mod)
  then have "signed_take_bit 63 ?d = ?d - 2 ^ 64"
    by (simp add: signed_take_bit_eq_take_bit_shift)
  then show ?thesis by (simp add: sint_word_ariths)
qed

lemma duration_nonneg_iff:
  fixes a b :: "64 word"
  assumes "sint b \<le> sint a"
  shows "0 \<le> sint (a - b) \<longleftrightarrow> sint a - sint b < 2 ^ 63"
proof (cases "sint a - sint b < 2 ^ 63")
  case True
  with assms show ?thesis using sint_duration [of b a] by simp
next
  case False
  then have w: "sint (a - b) = sint a - sint b - 2 ^ 64" by (intro sint_duration_wraps) simp
  have "sint a < 2 ^ 63" "- (2 ^ 63) \<le> sint b" using sint_lt [of a] sint_ge [of b] by simp_all
  then have "sint a - sint b - 2 ^ 64 < 0" by simp
  with False w show ?thesis by simp
qed

lemmas mail_eval = TriggerEvent_def getEventFunc_def matching_def mail_provider_def Mailer_handler_def
        BuildHandlers_def NewMailer_def registerHandler_def executeHandlerSafely_def buildHandler_def
        mail_proc0_def

text \<open>
  C2. When the span body panics with \<open>r\<close> (the provider having its pool if it is
  concurrent), \<^verbatim>\<open>TriggerSpan\<close> panics with the same \<open>r\<close>, in the state that the
  \<^verbatim>\<open>.start\<close> event, then the body up to its panic, then the \<^verbatim>\<open>.panic\<close> event
  leave: \<^verbatim>\<open>TriggerEvent\<close> is called on \<^verbatim>\<open>event + ".panic"\<close> with an empty
  measurement map and a metadata map whose keys are exactly \<^verbatim>\<open>error\<close> (bound to
  \<open>r\<close>), \<^verbatim>\<open>errorTime\<close> and \<^verbatim>\<open>stackTrace\<close>, it returns normally, and no
  \<^verbatim>\<open>.end\<close> event is fired.
\<close>

theorem TriggerSpan_body_panics:
  assumes "pool_present t"
    and "spanFunc (world (snd (state_of (TriggerEvent (rangeStart e) (event @ ''.start'')
            (Some [''start_time'' \<mapsto> Some (I64 (startTime e))]) metadata (t, s))))) = Panics r w'"
  shows "(let ts1 = state_of (TriggerEvent (rangeStart e) (event @ ''.start'')
                      (Some [''start_time'' \<mapsto> Some (I64 (startTime e))]) metadata (t, s));
              fired = TriggerEvent (rangePanic e) (event @ ''.panic'') (Some Map.empty)
                      (Some [''error'' \<mapsto> Some r, ''errorTime'' \<mapsto> Some (I64 (errorTime e)),
                             ''stackTrace'' \<mapsto> Some (Str (stackTrace e))])
                      (fst ts1, (snd ts1)\<lparr>world := w'\<rparr>)
          in TriggerSpan e event metadata spanFunc (t, s) = Panics r (state_of fired)
             \<and> fired = Returns None (state_of fired))
         \<and> dom [''error'' \<mapsto> Some r, ''errorTime'' \<mapsto> Some (I64 (errorTime e)),
                  ''stackTrace'' \<mapsto> Some (Str (stackTrace e))] = {''error'', ''errorTime'', ''stackTrace''}"
proof -
  let ?start = "TriggerEvent (rangeStart e) (event @ ''.start'')
                  (Some [''start_time'' \<mapsto> Some (I64 (startTime e))]) metadata (t, s)"
  obtain t1 s1 where start: "?start = Returns None (t1, s1)" and ok1: "pool_present t1"
    using TriggerEvent_returns [OF assms(1)] by blast
  have ts1: "state_of ?start = (t1, s1)" by (simp add: start)
  let ?fired = "TriggerEvent (rangePanic e) (event @ ''.panic'') (Some Map.empty)
                  (span_panic_metadata e r) (t1, s1\<lparr>world := w'\<rparr>)"
  have fired: "?fired = Returns None (state_of ?fired)"
    using ok1 by (rule TriggerEvent_Returns_state)
  have body: "TriggerSpan_body e event metadata spanFunc (t, s) = Panics r (t1, s1\<lparr>world := w'\<rparr>)"
    using assms(2) by (simp add: TriggerSpan_body_def span_start_measurement_def start)
  have "TriggerSpan e event metadata spanFunc (t, s) = Panics r (state_of ?fired)"
    by (simp add: TriggerSpan_def body case_Returns_state [OF fired])
  with fired show ?thesis
    by (simp add: Let_def span_panic_metadata_def ts1) auto
qed

theorem TriggerSpan_body_panics_witness:
  "TriggerSpan env_up ''x'' None body_panic (mail_provider, mail_proc0) =
     Panics (Str ''test panic'')
       (mail_provider,
        \<lparr>world =
           [''x.start'' \<mapsto> [\<lparr>Measurement = Some [''start_time'' \<mapsto> Some (I64 5)], Metadata = None\<rparr>],
            ''x.panic'' \<mapsto>
               [\<lparr>Measurement = Some Map.empty,
                 Metadata = Some [''error'' \<mapsto> Some (Str ''test panic''), ''errorTime'' \<mapsto> Some (I64 9),
                                  ''stackTrace'' \<mapsto> Some (Str ''goroutine 1 [running]'')]\<rparr>]],
         logged = []\<rparr>)"
proof -
  have present: "pool_present mail_provider"
    by (simp add: pool_present_def mail_provider_def)
  have start: "TriggerEvent [''m''] ''x.start'' (Some [''start_time'' \<mapsto> Some (I64 5)]) None
                 (mail_provider, mail_proc0) =
      Returns None (mail_provider,
        \<lparr>world = [''x.start'' \<mapsto> [\<lparr>Measurement = Some [''start_time'' \<mapsto> Some (I64 5)], Metadata = None\<rparr>]],
         logged = []\<rparr>)"
    by (simp add: TriggerEvent_def getEventFunc_def matching_def mail_provider_def Mailer_handler_def
        BuildHandlers_def NewMailer_def registerHandler_def executeHandlerSafely_def buildHandler_def
        mail_proc0_def)
  have body: "body_panic (world (snd (state_of (TriggerEvent (rangeStart env_up) (''x'' @ ''.start'')
            (Some [''start_time'' \<mapsto> Some (I64 (startTime env_up))]) None (mail_provider, mail_proc0))))) =
        Panics (Str ''test panic'')
          [''x.start'' \<mapsto> [\<lparr>Measurement = Some [''start_time'' \<mapsto> Some (I64 5)], Metadata = None\<rparr>]]"
    by (simp add: env_up_def start body_panic_def)
  show ?thesis
    using TriggerSpan_body_panics [where t = mail_provider and spanFunc = body_panic and e = env_up
        and event = "''x''" and metadata = None and s = mail_proc0, OF present body]
    by (simp add: Let_def env_up_def start)
       (simp add: TriggerEvent_def getEventFunc_def matching_def mail_provider_def Mailer_handler_def
        BuildHandlers_def NewMailer_def registerHandler_def executeHandlerSafely_def buildHandler_def)
qed

text \<open>
  C3, as the code has it. When the span body returns \<open>result\<close>, \<open>err\<close>, a
  measurement map that is not nil and a metadata map (the provider having its pool if
  it is concurrent), \<^verbatim>\<open>TriggerSpan\<close> returns \<open>result\<close> and \<open>err\<close> unchanged, in
  the state that the \<^verbatim>\<open>.start\<close> event (fired before the body, with measurement
  \<^verbatim>\<open>{start_time}\<close>), then the body, then the \<^verbatim>\<open>.end\<close> event leave: the
  \<^verbatim>\<open>.end\<close> event carries the body's measurement map with \<^verbatim>\<open>duration\<close> set to
  the \<^verbatim>\<open>int64\<close> difference of the two clock readings and \<^verbatim>\<open>end_time\<close> to the
  second, and the body's metadata map. When the second reading is not before the
  first, the duration is not negative exactly when the true difference of the two is
  below \<open>2 ^ 63\<close>, and it is then that difference.
\<close>

theorem TriggerSpan_body_returns:
  assumes "pool_present t"
    and "spanFunc (world (snd (state_of (TriggerEvent (rangeStart e) (event @ ''.start'')
            (Some [''start_time'' \<mapsto> Some (I64 (startTime e))]) metadata (t, s))))) =
           Returns (result, err, Some spanMeasurement, spanMetadata) w'"
  shows "(let ts1 = state_of (TriggerEvent (rangeStart e) (event @ ''.start'')
                      (Some [''start_time'' \<mapsto> Some (I64 (startTime e))]) metadata (t, s));
              fired = TriggerEvent (rangeEnd e) (event @ ''.end'')
                      (Some (spanMeasurement(''duration'' \<mapsto> Some (I64 (endTime e - startTime e)),
                                             ''end_time'' \<mapsto> Some (I64 (endTime e)))))
                      spanMetadata (fst ts1, (snd ts1)\<lparr>world := w'\<rparr>)
          in TriggerSpan e event metadata spanFunc (t, s) = Returns (result, err) (state_of fired)
             \<and> fired = Returns None (state_of fired))
         \<and> (sint (startTime e) \<le> sint (endTime e)
              \<and> sint (endTime e) - sint (startTime e) < 2 ^ 63 \<longrightarrow>
              sint (endTime e - startTime e) = sint (endTime e) - sint (startTime e)
              \<and> 0 \<le> sint (endTime e - startTime e))
         \<and> (sint (startTime e) \<le> sint (endTime e) \<longrightarrow>
              (0 \<le> sint (endTime e - startTime e)) =
              (sint (endTime e) - sint (startTime e) < 2 ^ 63))"
proof -
  let ?start = "TriggerEvent (rangeStart e) (event @ ''.start'')
                  (Some [''start_time'' \<mapsto> Some (I64 (startTime e))]) metadata (t, s)"
  obtain t1 s1 where start: "?start = Returns None (t1, s1)" and ok1: "pool_present t1"
    using TriggerEvent_returns [OF assms(1)] by blast
  have ts1: "state_of ?start = (t1, s1)" by (simp add: start)
  let ?fired = "TriggerEvent (rangeEnd e) (event @ ''.end'') (span_end_measurement e spanMeasurement)
                  spanMetadata (t1, s1\<lparr>world := w'\<rparr>)"
  have fired: "?fired = Returns None (state_of ?fired)"
    using ok1 by (rule TriggerEvent_Returns_state)
  have body: "TriggerSpan_body e event metadata spanFunc (t, s) = Returns (result, err) (state_of ?fired)"
    using assms(2)
    by (simp add: TriggerSpan_body_def span_start_measurement_def start case_Returns_state [OF fired])
  have span: "TriggerSpan e event metadata spanFunc (t, s) = Returns (result, err) (state_of ?fired)"
    by (simp add: TriggerSpan_def body)
  have exact: "sint (endTime e - startTime e) = sint (endTime e) - sint (startTime e)
        \<and> 0 \<le> sint (endTime e - startTime e)"
    if "sint (startTime e) \<le> sint (endTime e)" "sint (endTime e) - sint (startTime e) < 2 ^ 63"
    using sint_duration [OF that] that by simp
  have sign: "(0 \<le> sint (endTime e - startTime e)) = (sint (endTime e) - sint (startTime e) < 2 ^ 63)"
    if "sint (startTime e) \<le> sint (endTime e)"
    using that by (rule duration_nonneg_iff)
  have "TriggerSpan e event metadata spanFunc (t, s) = Returns (result, err) (state_of ?fired)
        \<and> ?fired = Returns None (state_of ?fired)"
    using span fired by simp
  then have first: "(let ts1 = state_of ?start;
              fired = TriggerEvent (rangeEnd e) (event @ ''.end'')
                      (Some (spanMeasurement(''duration'' \<mapsto> Some (I64 (endTime e - startTime e)),
                                             ''end_time'' \<mapsto> Some (I64 (endTime e)))))
                      spanMetadata (fst ts1, (snd ts1)\<lparr>world := w'\<rparr>)
          in TriggerSpan e event metadata spanFunc (t, s) = Returns (result, err) (state_of fired)
             \<and> fired = Returns None (state_of fired))"
    by (simp add: Let_def span_end_measurement_def ts1)
  from first exact sign show ?thesis by blast
qed

theorem TriggerSpan_body_returns_witness:
  "TriggerSpan env_up ''x'' None body_ok (mail_provider, mail_proc0) =
     Returns (Some (Str ''done''), None)
       (mail_provider,
        \<lparr>world =
           [''x.start'' \<mapsto> [\<lparr>Measurement = Some [''start_time'' \<mapsto> Some (I64 5)], Metadata = None\<rparr>],
            ''x.end'' \<mapsto>
               [\<lparr>Measurement = Some [''rows'' \<mapsto> Some (I64 7), ''duration'' \<mapsto> Some (I64 3),
                                     ''end_time'' \<mapsto> Some (I64 8)],
                 Metadata = Some [''result'' \<mapsto> Some (Str ''ok'')]\<rparr>]],
         logged = []\<rparr>)
   \<and> sint (endTime env_up - startTime env_up) = 3"
proof -
  have present: "pool_present mail_provider"
    by (simp add: pool_present_def mail_provider_def)
  have start: "TriggerEvent [''m''] ''x.start'' (Some [''start_time'' \<mapsto> Some (I64 5)]) None
                 (mail_provider, mail_proc0) =
      Returns None (mail_provider,
        \<lparr>world = [''x.start'' \<mapsto> [\<lparr>Measurement = Some [''start_time'' \<mapsto> Some (I64 5)], Metadata = None\<rparr>]],
         logged = []\<rparr>)"
    by (simp add: mail_eval)
  have body: "body_ok (world (snd (state_of (TriggerEvent (rangeStart env_up) (''x'' @ ''.start'')
            (Some [''start_time'' \<mapsto> Some (I64 (startTime env_up))]) None (mail_provider, mail_proc0))))) =
        Returns (Some (Str ''done''), None, Some [''rows'' \<mapsto> Some (I64 7)],
                 Some [''result'' \<mapsto> Some (Str ''ok'')])
          [''x.start'' \<mapsto> [\<lparr>Measurement = Some [''start_time'' \<mapsto> Some (I64 5)], Metadata = None\<rparr>]]"
    by (simp add: env_up_def start body_ok_def)
  have clock: "sint (startTime env_up) \<le> sint (endTime env_up)
        \<and> sint (endTime env_up) - sint (startTime env_up) < 2 ^ 63"
    by (simp add: env_up_def)
  note general = TriggerSpan_body_returns [where t = mail_provider and spanFunc = body_ok and e = env_up
        and event = "''x''" and metadata = None and s = mail_proc0, OF present body]
  from general clock have "sint (endTime env_up - startTime env_up) = sint (endTime env_up) - sint (startTime env_up)"
    by blast
  then have "sint (endTime env_up - startTime env_up) = 3"
    by (simp add: env_up_def)
  moreover have "TriggerSpan env_up ''x'' None body_ok (mail_provider, mail_proc0) =
     Returns (Some (Str ''done''), None)
       (mail_provider,
        \<lparr>world =
           [''x.start'' \<mapsto> [\<lparr>Measurement = Some [''start_time'' \<mapsto> Some (I64 5)], Metadata = None\<rparr>],
            ''x.end'' \<mapsto>
               [\<lparr>Measurement = Some [''rows'' \<mapsto> Some (I64 7), ''duration'' \<mapsto> Some (I64 3),
                                     ''end_time'' \<mapsto> Some (I64 8)],
                 Metadata = Some [''result'' \<mapsto> Some (Str ''ok'')]\<rparr>]],
         logged = []\<rparr>)"
    using general [THEN conjunct1]
    by (simp add: Let_def env_up_def start)
       (simp add: TriggerEvent_def getEventFunc_def matching_def mail_provider_def Mailer_handler_def
        BuildHandlers_def NewMailer_def registerHandler_def executeHandlerSafely_def buildHandler_def)
  ultimately show ?thesis by simp
qed

text \<open>
  C3, as the specification states it, fails for a body that returns normally with a
  nil measurement map: writing \<^verbatim>\<open>duration\<close> into it panics, so \<^verbatim>\<open>TriggerSpan\<close>
  fires \<^verbatim>\<open>.start\<close> and \<^verbatim>\<open>.panic\<close>, never \<^verbatim>\<open>.end\<close>, and panics instead of
  returning the body's result. It also fails when the clock is set back while the
  body runs: with readings 5 and then 3 the \<^verbatim>\<open>.end\<close> event carries the duration
  \<open>-2\<close>.
\<close>

theorem TriggerSpan_nil_measurement_or_clock_back:
  "TriggerSpan env_up ''x'' None body_nil (mail_provider, mail_proc0) =
     Panics (RuntimeError ''assignment to entry in nil map'')
       (mail_provider,
        \<lparr>world =
           [''x.start'' \<mapsto> [\<lparr>Measurement = Some [''start_time'' \<mapsto> Some (I64 5)], Metadata = None\<rparr>],
            ''x.panic'' \<mapsto>
               [\<lparr>Measurement = Some Map.empty,
                 Metadata = Some [''error'' \<mapsto> Some (RuntimeError ''assignment to entry in nil map''),
                                  ''errorTime'' \<mapsto> Some (I64 9),
                                  ''stackTrace'' \<mapsto> Some (Str ''goroutine 1 [running]'')]\<rparr>]],
         logged = []\<rparr>)
   \<and> TriggerSpan env_back ''x'' None body_ok (mail_provider, mail_proc0) =
     Returns (Some (Str ''done''), None)
       (mail_provider,
        \<lparr>world =
           [''x.start'' \<mapsto> [\<lparr>Measurement = Some [''start_time'' \<mapsto> Some (I64 5)], Metadata = None\<rparr>],
            ''x.end'' \<mapsto>
               [\<lparr>Measurement = Some [''rows'' \<mapsto> Some (I64 7), ''duration'' \<mapsto> Some (I64 (- 2)),
                                     ''end_time'' \<mapsto> Some (I64 3)],
                 Metadata = Some [''result'' \<mapsto> Some (Str ''ok'')]\<rparr>]],
         logged = []\<rparr>)
   \<and> sint (- 2 :: 64 word) = - 2"
  by (simp add: TriggerSpan_def TriggerSpan_body_def span_start_measurement_def span_end_measurement_def
      span_panic_metadata_def env_up_def env_back_def body_nil_def body_ok_def mail_eval)

section \<open>The registry\<close>

lemma last_write_append:
  "last_write (xs @ ys) k = (case last_write ys k of Some v \<Rightarrow> Some v | None \<Rightarrow> last_write xs k)"
  by (induction xs) (auto split: option.splits)

lemma fold_add: "fold (\<lambda>h m. m(ID h \<mapsto> h)) hs m k =
   (case last_write (map (\<lambda>h. (ID h, Some h)) hs) k of None \<Rightarrow> m k | Some v \<Rightarrow> v)"
  by (induction hs arbitrary: m) (auto split: option.splits)

lemma fold_remove: "fold (\<lambda>h m. m(ID h := None)) hs m k =
   (case last_write (map (\<lambda>h. (ID h, None)) hs) k of None \<Rightarrow> m k | Some v \<Rightarrow> v)"
  by (induction hs arbitrary: m) (auto split: option.splits)

lemma apply_call_handlers:
  "handlers (apply_call c t) k =
     (case last_write (writes c) k of None \<Rightarrow> handlers t k | Some v \<Rightarrow> v)"
  by (cases c) (simp_all add: AddHandlers_def RemoveHandlers_def fold_add fold_remove)

lemma fold_apply_call:
  "handlers (fold apply_call cs t) k =
     (case most_recent cs k of None \<Rightarrow> handlers t k | Some v \<Rightarrow> v)"
proof (induction cs arbitrary: t)
  case Nil
  then show ?case by (simp add: most_recent_def)
next
  case (Cons c cs)
  show ?case
    by (auto simp: Cons.IH apply_call_handlers most_recent_def last_write_append split: option.splits)
qed

text \<open>
  C6. After any sequence of \<^verbatim>\<open>AddHandlers\<close>/\<^verbatim>\<open>RemoveHandlers\<close> calls the registry
  holds, under each identity, what the last call to mention that identity left there:
  the handler it added (replacing any earlier one), or nothing if it removed it; an
  identity no call mentions keeps its entry. In particular the last handler of an
  \<^verbatim>\<open>AddHandlers\<close> call is registered under its identity, and the identity of the last
  handler of a \<^verbatim>\<open>RemoveHandlers\<close> call has no entry. Both calls return a nil error.
\<close>

theorem registry_last_write_wins:
  "handlers (fold apply_call cs t) k =
     (case most_recent cs k of None \<Rightarrow> handlers t k | Some v \<Rightarrow> v)
   \<and> handlers (snd (AddHandlers t (hs @ [h]))) (ID h) = Some h
   \<and> handlers (snd (RemoveHandlers t (hs @ [h]))) (ID h) = None
   \<and> fst (AddHandlers t hs) = None \<and> fst (RemoveHandlers t hs) = None"
  by (simp add: fold_apply_call) (simp add: AddHandlers_def RemoveHandlers_def)

section \<open>The mailbox\<close>

lemma buildHandler_log:
  "log_of (state_of (buildHandler event measurement metadata cfg mb)) name =
     log_of mb name @ (if name = event then [\<lparr>Measurement = measurement, Metadata = metadata\<rparr>] else [])"
  by (simp add: buildHandler_def log_of_def)

lemma buildHandler_dom:
  "dom (state_of (buildHandler event measurement metadata cfg mb)) = insert event (dom mb)"
  by (simp add: buildHandler_def)

lemma deliver_log: "log_of (deliver ds mb) name = log_of mb name @ delivered ds name"
  by (induction ds mb rule: deliver.induct) (auto simp: buildHandler_log delivered_def)

lemma deliver_dom: "dom (deliver ds mb) = dom mb \<union> fst ` set ds"
  by (induction ds mb rule: deliver.induct) (auto simp: buildHandler_dom)

text \<open>
  C8. One delivery to a mailbox returns normally and appends exactly one entry, the
  delivered (measurement, metadata) pair, to the log of the delivered name, leaving
  every other name as it was. So after any run of deliveries the log of each name is
  the sequence of pairs delivered under that name, in the order of delivery, after
  what the log held before (nothing, for a new \<^verbatim>\<open>Mailer\<close>); and a new \<^verbatim>\<open>Mailer\<close>
  has an entry for a name exactly when something was delivered under it.
\<close>

theorem mailbox_log_exact:
  "buildHandler event measurement metadata cfg mb =
     Returns () (mb(event \<mapsto> log_of mb event @ [\<lparr>Measurement = measurement, Metadata = metadata\<rparr>]))
   \<and> log_of (deliver ds (mailbox (NewMailer i))) name = delivered ds name
   \<and> log_of (deliver ds mb) name = log_of mb name @ delivered ds name
   \<and> (deliver ds (mailbox (NewMailer i)) name = None \<longleftrightarrow> delivered ds name = [])"
proof -
  have one: "buildHandler event measurement metadata cfg mb =
     Returns () (mb(event \<mapsto> log_of mb event @ [\<lparr>Measurement = measurement, Metadata = metadata\<rparr>]))"
    by (simp add: buildHandler_def log_of_def)
  have "log_of (mailbox (NewMailer i)) name = []"
    by (simp add: NewMailer_def log_of_def)
  then have fresh: "log_of (deliver ds (mailbox (NewMailer i))) name = delivered ds name"
    by (simp add: deliver_log)
  have "dom (deliver ds (mailbox (NewMailer i))) = fst ` set ds"
    by (simp add: deliver_dom NewMailer_def)
  then have "deliver ds (mailbox (NewMailer i)) name = None \<longleftrightarrow> name \<notin> fst ` set ds"
    by (metis domIff)
  moreover have "name \<notin> fst ` set ds \<longleftrightarrow> delivered ds name = []"
    by (auto simp: delivered_def filter_empty_conv image_iff)
  ultimately show ?thesis
    using one fresh deliver_log [of ds mb name] by blast
qed

text \<open>
  C10. \<^verbatim>\<open>RefuteReceive\<close> returns the negation of what \<^verbatim>\<open>AssertReceive\<close> returns on
  the same name, timeout, predicate and run of polls, and \<^verbatim>\<open>RefuteReceived\<close> the
  negation of \<^verbatim>\<open>AssertReceived\<close> on the same mailbox, name and predicate.
\<close>

theorem refute_negates_assert:
  "RefuteReceive polls event timeout mailboxFunc = (\<not> AssertReceive polls event timeout mailboxFunc)
   \<and> RefuteReceived m event mailboxFunc = (\<not> AssertReceived m event mailboxFunc)"
  by (simp add: RefuteReceive_def RefuteReceived_def)

end
